theory Spec2Isabelle
  imports Main "HOL-Library.Sublist" "HOL-Library.Extended_Nat"
begin

section \<open>OpenDrop release integration: the release widget of the site\<close>

text \<open>
  A shallow embedding of \<^verbatim>\<open>scripts/opendrop-release.js\<close>. Each JavaScript function is a
  HOL function of the same name. JavaScript values are typed the way the script's JSDoc and
  the GitHub releases feed shape them: a release and an asset are records, a field that may
  be \<^verbatim>\<open>null\<close> or missing is an \<open>option\<close>, the flags \<^verbatim>\<open>draft\<close> and \<^verbatim>\<open>prerelease\<close> are
  read for their truthiness only and are \<open>bool\<close>. An array is a list of such records, so
  the script's guards \<^verbatim>\<open>Array.isArray(x)\<close> and \<^verbatim>\<open>r && ...\<close> (an element is an object) hold
  by typing; the guard on the length stays. A string is the list of the bytes of its UTF-8
  encoding, so a character above U+007F is two or three bytes. A number is an IEEE double:
  the numbers of a version are non-negative integers or \<^verbatim>\<open>Infinity\<close> and have the type
  \<open>enat\<close>, and a difference of two of them is a \<open>js_number\<close>. An exception is a value
  \<open>Inl e\<close> of a sum type, and a \<^verbatim>\<open>try\<close>/\<^verbatim>\<open>catch\<close> is the case distinction on it.
\<close>

subsection \<open>Configuration\<close>

definition cacheTTL :: int where
  \<comment> \<open>\<^verbatim>\<open>6 * 60 * 60 * 1000\<close>: six hours in milliseconds\<close>
  "cacheTTL = 6 * 60 * 60 * 1000"

definition releasesPage :: string where
  "releasesPage = ''https://github.com/nfantinodyer/nfdgames/releases''"

definition latestRelease :: string where
  "latestRelease = ''https://github.com/nfantinodyer/nfdgames/releases/latest''"

definition badgeText :: string where "badgeText = ''releaseBadgeText''"
definition badgeLink :: string where "badgeLink = ''releaseBadgeLink''"
definition versionText :: string where "versionText = ''windowsVersionText''"
definition heroDownload :: string where "heroDownload = ''heroDownloadBtn''"
definition windowsDownload :: string where "windowsDownload = ''windowsDownloadBtn''"

subsection \<open>Data\<close>

record semver =
  major :: enat
  minor :: enat
  patch :: enat

datatype js_number = NaN | Neg_Infinity | Finite int | Pos_Infinity

record asset =
  name :: "string option"  \<comment> \<open>\<open>None\<close>: \<^verbatim>\<open>typeof a.name !== 'string'\<close>\<close>
  browser_download_url :: "string option"

record release =
  tag_name :: "string option"
  draft :: bool
  prerelease :: bool
  published_at :: "string option"
  html_url :: "string option"
  assets :: "asset list"

datatype js_error =
  SecurityError | QuotaExceededError | SyntaxError | TypeError | ReferenceError

subsection \<open>Strings\<close>

definition is_digit :: "char \<Rightarrow> bool" where
  \<comment> \<open>the regular expression class \<^verbatim>\<open>\d\<close>\<close>
  "is_digit c = (c \<in> set ''0123456789'')"

definition white_space :: "string list" where
  \<comment> \<open>the white space and the line terminators of JavaScript, each in UTF-8: U+0009 to
      U+000D, U+0020, U+00A0, U+1680, U+2000 to U+200A, U+2028, U+2029, U+202F, U+205F,
      U+3000 and U+FEFF\<close>
  "white_space =
     [[CHR 0x09], [CHR 0x0A], [CHR 0x0B], [CHR 0x0C], [CHR 0x0D], [CHR 0x20],
      [CHR 0xC2, CHR 0xA0],
      [CHR 0xE1, CHR 0x9A, CHR 0x80],
      [CHR 0xE2, CHR 0x80, CHR 0x80], [CHR 0xE2, CHR 0x80, CHR 0x81],
      [CHR 0xE2, CHR 0x80, CHR 0x82], [CHR 0xE2, CHR 0x80, CHR 0x83],
      [CHR 0xE2, CHR 0x80, CHR 0x84], [CHR 0xE2, CHR 0x80, CHR 0x85],
      [CHR 0xE2, CHR 0x80, CHR 0x86], [CHR 0xE2, CHR 0x80, CHR 0x87],
      [CHR 0xE2, CHR 0x80, CHR 0x88], [CHR 0xE2, CHR 0x80, CHR 0x89],
      [CHR 0xE2, CHR 0x80, CHR 0x8A],
      [CHR 0xE2, CHR 0x80, CHR 0xA8], [CHR 0xE2, CHR 0x80, CHR 0xA9],
      [CHR 0xE2, CHR 0x80, CHR 0xAF],
      [CHR 0xE2, CHR 0x81, CHR 0x9F],
      [CHR 0xE3, CHR 0x80, CHR 0x80],
      [CHR 0xEF, CHR 0xBB, CHR 0xBF]]"

function strip_lead :: "string list \<Rightarrow> string \<Rightarrow> string" where
  \<comment> \<open>the string without the characters of \<open>ws\<close> that it begins with\<close>
  "strip_lead ws s =
     (case find (\<lambda>w. w \<noteq> [] \<and> prefix w s) ws of
        None \<Rightarrow> s
      | Some w \<Rightarrow> strip_lead ws (drop (length w) s))"
  by pat_completeness auto
termination
proof (relation "measure (\<lambda>(ws, s). length s)")
  show "wf (measure (\<lambda>(ws, s). length s))"
    by simp
next
  fix ws :: "string list" and s w :: string
  assume "find (\<lambda>w. w \<noteq> [] \<and> prefix w s) ws = Some w"
  then have "w \<noteq> [] \<and> prefix w s"
    by (auto simp: find_Some_iff)
  then have "length (drop (length w) s) < length s"
    by (cases s) (auto simp: prefix_def)
  then show "((ws, drop (length w) s), (ws, s)) \<in> measure (\<lambda>(ws, s). length s)"
    by simp
qed

declare strip_lead.simps [simp del]

definition trim :: "string \<Rightarrow> string" where
  \<comment> \<open>\<^verbatim>\<open>String.prototype.trim\<close>: the white space is removed at the start, then at the end
      (there, on the reversed string, the reversed encodings)\<close>
  "trim s = rev (strip_lead (map rev white_space) (rev (strip_lead white_space s)))"

definition strip_v :: "string \<Rightarrow> string" where
  \<comment> \<open>\<^verbatim>\<open>.replace(/^v/i, '')\<close>: one leading v or V, if there is one\<close>
  "strip_v s = (case s of [] \<Rightarrow> [] | c # cs \<Rightarrow> if c = CHR ''v'' \<or> c = CHR ''V'' then cs else c # cs)"

definition digit_val :: "char \<Rightarrow> nat" where
  "digit_val c = of_char c - 48"

definition decimal :: "string \<Rightarrow> nat" where
  \<comment> \<open>the number that a string of decimal digits denotes\<close>
  "decimal ds = foldl (\<lambda>n c. 10 * n + digit_val c) 0 ds"

fun bit_width :: "nat \<Rightarrow> nat" where
  \<comment> \<open>the number of binary digits of \<open>n\<close>\<close>
  "bit_width n = (if n = 0 then 0 else Suc (bit_width (n div 2)))"

declare bit_width.simps [simp del]

definition to_double :: "nat \<Rightarrow> enat" where
  \<comment> \<open>the IEEE double nearest to \<open>n\<close>: 53 significant binary digits are kept, a tie goes to
      the even neighbour, and a result of \<open>2^1024\<close> or more is \<^verbatim>\<open>Infinity\<close>\<close>
  "to_double n =
     (if n < 2 ^ 53 then enat n
      else if 2 ^ 1024 \<le> n then \<infinity>
      else
        let e = bit_width n - 53;
            q = n div 2 ^ e;
            r = n mod 2 ^ e;
            half = 2 ^ (e - 1);
            q' = (if half < r \<or> (r = half \<and> odd q) then q + 1 else q);
            m = q' * 2 ^ e
        in if 2 ^ 1024 \<le> m then \<infinity> else enat m)"

definition Number :: "string \<Rightarrow> enat" where
  \<comment> \<open>\<^verbatim>\<open>Number\<close> on a string of decimal digits: the double nearest to the number denoted.
      (For more than 20 significant digits the standard also allows the double nearest to a
      truncation of the digits; the browsers round the number itself.)\<close>
  "Number ds = to_double (decimal ds)"

definition subtract :: "enat \<Rightarrow> enat \<Rightarrow> js_number" where
  \<comment> \<open>\<^verbatim>\<open>x - y\<close> on two such numbers: the double nearest to the difference, an infinity when
      one side is \<^verbatim>\<open>Infinity\<close>, \<^verbatim>\<open>NaN\<close> when both are\<close>
  "subtract x y =
     (case x of
        \<infinity> \<Rightarrow> (case y of \<infinity> \<Rightarrow> NaN | enat b \<Rightarrow> Pos_Infinity)
      | enat a \<Rightarrow>
         (case y of
            \<infinity> \<Rightarrow> Neg_Infinity
          | enat b \<Rightarrow>
             if b \<le> a
             then (case to_double (a - b) of enat m \<Rightarrow> Finite (int m) | \<infinity> \<Rightarrow> Pos_Infinity)
             else (case to_double (b - a) of enat m \<Rightarrow> Finite (- int m) | \<infinity> \<Rightarrow> Neg_Infinity)))"

definition gt0 :: "js_number \<Rightarrow> bool" where
  \<comment> \<open>\<^verbatim>\<open>cmp > 0\<close>\<close>
  "gt0 x = (case x of Finite d \<Rightarrow> 0 < d | Pos_Infinity \<Rightarrow> True | _ \<Rightarrow> False)"

definition eq0 :: "js_number \<Rightarrow> bool" where
  \<comment> \<open>\<^verbatim>\<open>cmp === 0\<close>\<close>
  "eq0 x = (case x of Finite d \<Rightarrow> d = 0 | _ \<Rightarrow> False)"

definition toLowerCase_char :: "char \<Rightarrow> char" where
  \<comment> \<open>on the letters A to Z; the script compares the result with ASCII text only, which no
      other character yields\<close>
  "toLowerCase_char c =
     (let n = (of_char c :: nat) in if 65 \<le> n \<and> n \<le> 90 then char_of (n + 32) else c)"

definition toLowerCase :: "string \<Rightarrow> string" where
  "toLowerCase s = map toLowerCase_char s"

definition endsWith :: "string \<Rightarrow> string \<Rightarrow> bool" where
  "endsWith s e = suffix e s"

fun starts_with :: "string \<Rightarrow> string \<Rightarrow> bool" where
  "starts_with [] s = True"
| "starts_with (k # ks) [] = False"
| "starts_with (k # ks) (c # cs) = (k = c \<and> starts_with ks cs)"

fun test_i :: "string \<Rightarrow> string \<Rightarrow> bool" where
  \<comment> \<open>\<^verbatim>\<open>/kw/i.test(s)\<close> for a lower-case literal \<open>kw\<close>: the literal occurs at some position
      of \<open>s\<close>, letter case ignored\<close>
  "test_i kw [] = starts_with kw []"
| "test_i kw (c # cs) = (starts_with kw (toLowerCase (c # cs)) \<or> test_i kw cs)"

subsection \<open>parseSemver\<close>

text \<open>
  \<^verbatim>\<open>/(\d+)\.(\d+)\.(\d+)/\<close> tried at the start of a string. Each group is greedy; a group
  that gave back digits would leave a digit where a dot or the end of the match is due, so
  the longest run of digits is the only choice that can match.
\<close>

definition match_here :: "string \<Rightarrow> (string \<times> string \<times> string) option" where
  "match_here s =
     (let d1 = takeWhile is_digit s; r1 = dropWhile is_digit s in
      if d1 = [] then None else
      case r1 of [] \<Rightarrow> None | c1 # s2 \<Rightarrow>
      if c1 \<noteq> CHR ''.'' then None else
      let d2 = takeWhile is_digit s2; r2 = dropWhile is_digit s2 in
      if d2 = [] then None else
      case r2 of [] \<Rightarrow> None | c2 # s3 \<Rightarrow>
      if c2 \<noteq> CHR ''.'' then None else
      let d3 = takeWhile is_digit s3 in
      if d3 = [] then None else Some (d1, d2, d3))"

fun regex_match :: "string \<Rightarrow> (string \<times> string \<times> string) option" where
  \<comment> \<open>\<^verbatim>\<open>cleaned.match(...)\<close> without the g flag: the match at the leftmost position that has one\<close>
  "regex_match [] = None"
| "regex_match (c # cs) =
     (case match_here (c # cs) of Some m \<Rightarrow> Some m | None \<Rightarrow> regex_match cs)"

definition parseSemver :: "string option \<Rightarrow> semver option" where
  "parseSemver tag =
     (case tag of None \<Rightarrow> None | Some t \<Rightarrow>
      if t = [] then None else
      let cleaned = strip_v (trim t) in
      case regex_match cleaned of
        None \<Rightarrow> None
      | Some (m1, m2, m3) \<Rightarrow> Some \<lparr>major = Number m1, minor = Number m2, patch = Number m3\<rparr>)"

subsection \<open>compareSemver\<close>

definition compareSemver :: "semver \<Rightarrow> semver \<Rightarrow> js_number" where
  "compareSemver a b =
     (if major a \<noteq> major b then subtract (major a) (major b)
      else if minor a \<noteq> minor b then subtract (minor a) (minor b)
      else subtract (patch a) (patch b))"

subsection \<open>pickBestRelease\<close>

text \<open>
  \<^verbatim>\<open>new Date(x).getTime()\<close> on a string is the browser's date parser. It is the parameter
  \<open>D\<close> of the functions below: \<open>D s = Some ms\<close> when \<open>s\<close> is read as the instant \<open>ms\<close>
  milliseconds after the epoch, \<open>None\<close> when the result is \<^verbatim>\<open>NaN\<close> (an invalid date).
\<close>

definition getTime :: "(string \<Rightarrow> int option) \<Rightarrow> string option \<Rightarrow> int option" where
  \<comment> \<open>\<^verbatim>\<open>new Date(published_at || 0).getTime()\<close>: a missing or empty field is the epoch\<close>
  "getTime D p = (case p of None \<Rightarrow> Some 0 | Some s \<Rightarrow> if s = [] then Some 0 else D s)"

definition later :: "int option \<Rightarrow> int option \<Rightarrow> bool" where
  \<comment> \<open>\<^verbatim>\<open>aTime > bTime\<close> on numbers: false when either side is \<^verbatim>\<open>NaN\<close>\<close>
  "later a b = (case (a, b) of (Some x, Some y) \<Rightarrow> x > y | _ \<Rightarrow> False)"

definition nonDrafts :: "release list \<Rightarrow> release list" where
  "nonDrafts releases = filter (\<lambda>r. \<not> draft r) releases"

definition stable :: "release list \<Rightarrow> release list" where
  "stable releases = filter (\<lambda>r. \<not> prerelease r) (nonDrafts releases)"

definition candidates :: "release list \<Rightarrow> release list" where
  "candidates releases =
     (if length (stable releases) > 0 then stable releases else nonDrafts releases)"

definition step :: "(string \<Rightarrow> int option) \<Rightarrow> (release \<times> semver) option \<Rightarrow> release
    \<Rightarrow> (release \<times> semver) option" where
  \<comment> \<open>one turn of the \<^verbatim>\<open>for\<close> loop over the candidates, on the running \<^verbatim>\<open>best\<close>\<close>
  "step D best r =
     (case parseSemver (tag_name r) of
        None \<Rightarrow> best
      | Some sv \<Rightarrow>
         (case best of
            None \<Rightarrow> Some (r, sv)
          | Some (br, bsv) \<Rightarrow>
             (let cmp = compareSemver sv bsv in
              if gt0 cmp then Some (r, sv)
              else if eq0 cmp then
                (let aTime = getTime D (published_at r); bTime = getTime D (published_at br) in
                 if later aTime bTime then Some (r, sv) else best)
              else best)))"

definition scan :: "(string \<Rightarrow> int option) \<Rightarrow> release list \<Rightarrow> (release \<times> semver) option" where
  "scan D cs = foldl (step D) None cs"

definition pickBestRelease :: "(string \<Rightarrow> int option) \<Rightarrow> release list \<Rightarrow> release option" where
  "pickBestRelease D releases =
     (if length releases = 0 then None
      else let cs = candidates releases in
        case scan D cs of
          None \<Rightarrow> (case cs of [] \<Rightarrow> None | c # _ \<Rightarrow> Some c)
        | Some (br, _) \<Rightarrow> Some br)"

subsection \<open>pickWindowsAsset\<close>

definition isExe :: "asset \<Rightarrow> bool" where
  "isExe a = (case name a of None \<Rightarrow> False | Some n \<Rightarrow> endsWith (toLowerCase n) ''.exe'')"

definition test_name :: "string \<Rightarrow> asset \<Rightarrow> bool" where
  \<comment> \<open>\<^verbatim>\<open>/kw/i.test(a.name)\<close>\<close>
  "test_name kw a = (case name a of None \<Rightarrow> False | Some n \<Rightarrow> test_i kw n)"

definition looks_like_server :: "asset \<Rightarrow> bool" where
  "looks_like_server a =
     (test_name ''opendrop'' a \<and>
      (test_name ''server'' a \<or> test_name ''setup'' a \<or> test_name ''installer'' a
       \<or> test_name ''windows'' a))"

definition pickWindowsAsset :: "asset list \<Rightarrow> asset option" where
  "pickWindowsAsset as =
     (if length as = 0 then None
      else let exes = filter isExe as in
        if length exes = 0 then None
        else case find looks_like_server exes of
          Some preferred \<Rightarrow> Some preferred
        | None \<Rightarrow>
           (case find (test_name ''opendrop'') exes of
              Some opendropAny \<Rightarrow> Some opendropAny
            | None \<Rightarrow> (case exes of [] \<Rightarrow> None | e # _ \<Rightarrow> Some e)))"

subsection \<open>The cache: getCachedRelease and cacheRelease\<close>

text \<open>
  The browser's \<^verbatim>\<open>localStorage\<close> keeps one text under \<^verbatim>\<open>CONFIG.cacheKey\<close>. A text is
  kept as what \<^verbatim>\<open>JSON.parse\<close> makes of it: the empty text, a text that is no JSON, or the
  text of a JSON value; so \<^verbatim>\<open>JSON.stringify\<close> of a value is the text \<open>Encoded\<close> of that
  value, as it is for the JSON-representable values the script stores. Of a decoded value
  the script reads the properties \<^verbatim>\<open>ts\<close> and \<^verbatim>\<open>release\<close> only: \<open>JNull\<close> is \<^verbatim>\<open>null\<close>,
  \<open>JPlain\<close> a value with neither property (a number, a string, an array), \<open>JObject\<close> an
  object with the number under \<^verbatim>\<open>ts\<close> (\<open>None\<close>: missing or \<^verbatim>\<open>null\<close>) and the release under
  \<^verbatim>\<open>release\<close> (\<open>None\<close>: missing or falsy). Any read and any write may raise.
\<close>

datatype decoded = JNull | JPlain | JObject (ts: "int option") (release: "release option")

datatype stored = Blank | Garbled | Encoded decoded

record web_storage =
  reads :: "js_error option"  \<comment> \<open>\<open>Some e\<close>: \<^verbatim>\<open>localStorage.getItem\<close> raises \<open>e\<close>\<close>
  writes :: "stored \<Rightarrow> js_error option"  \<comment> \<open>\<open>Some e\<close>: \<^verbatim>\<open>setItem\<close> of this text raises \<open>e\<close>\<close>
  item :: "stored option"  \<comment> \<open>the text under the cache key\<close>

definition getItem :: "web_storage \<Rightarrow> js_error + stored option" where
  "getItem s = (case reads s of Some e \<Rightarrow> Inl e | None \<Rightarrow> Inr (item s))"

definition setItem :: "web_storage \<Rightarrow> stored \<Rightarrow> js_error + web_storage" where
  "setItem s t = (case writes s t of Some e \<Rightarrow> Inl e | None \<Rightarrow> Inr (s\<lparr>item := Some t\<rparr>))"

definition JSON_parse :: "stored \<Rightarrow> js_error + decoded" where
  "JSON_parse t = (case t of Encoded v \<Rightarrow> Inr v | _ \<Rightarrow> Inl SyntaxError)"

definition JSON_stringify :: "decoded \<Rightarrow> stored" where
  "JSON_stringify v = Encoded v"

definition isValid :: "int \<Rightarrow> decoded \<Rightarrow> bool" where
  \<comment> \<open>\<^verbatim>\<open>cached?.ts && (Date.now() - cached.ts) < CONFIG.cacheTTL && cached?.release\<close>\<close>
  "isValid now cached =
     (case cached of
        JObject (Some t) r \<Rightarrow> t \<noteq> 0 \<and> now - t < cacheTTL \<and> r \<noteq> None
      | _ \<Rightarrow> False)"

definition getCachedRelease_try :: "int \<Rightarrow> web_storage \<Rightarrow> js_error + release option" where
  \<comment> \<open>the \<^verbatim>\<open>try\<close> block of \<^verbatim>\<open>getCachedRelease\<close>; \<open>now\<close> is \<^verbatim>\<open>Date.now()\<close>\<close>
  "getCachedRelease_try now s =
     (case getItem s of
        Inl e \<Rightarrow> Inl e
      | Inr cachedRaw \<Rightarrow>
         (case cachedRaw of
            None \<Rightarrow> Inr None
          | Some Blank \<Rightarrow> Inr None
          | Some raw \<Rightarrow>
             (case JSON_parse raw of
                Inl e \<Rightarrow> Inl e
              | Inr cached \<Rightarrow> Inr (if isValid now cached then release cached else None))))"

definition getCachedRelease :: "int \<Rightarrow> web_storage \<Rightarrow> js_error + release option" where
  "getCachedRelease now s =
     (case getCachedRelease_try now s of Inl e \<Rightarrow> Inr None | Inr v \<Rightarrow> Inr v)"

definition cacheRelease_try :: "int \<Rightarrow> release \<Rightarrow> web_storage \<Rightarrow> js_error + web_storage" where
  "cacheRelease_try now r s = setItem s (JSON_stringify (JObject (Some now) (Some r)))"

definition cacheRelease :: "int \<Rightarrow> release \<Rightarrow> web_storage \<Rightarrow> js_error + web_storage" where
  "cacheRelease now r s =
     (case cacheRelease_try now r s of Inl e \<Rightarrow> Inr s | Inr s' \<Rightarrow> Inr s')"

definition round_trip :: "int \<Rightarrow> int \<Rightarrow> release \<Rightarrow> web_storage \<Rightarrow> js_error + release option" where
  \<comment> \<open>\<^verbatim>\<open>cacheRelease(r)\<close> at the time \<open>now\<close>, then \<^verbatim>\<open>getCachedRelease()\<close> at the time \<open>now'\<close>\<close>
  "round_trip now now' r s =
     (case cacheRelease now r s of Inl e \<Rightarrow> Inl e | Inr s' \<Rightarrow> getCachedRelease now' s')"

subsection \<open>The page: updateReleaseUI\<close>

record element =
  textContent :: string
  href :: string
  fallbackHref :: "string option"  \<comment> \<open>\<^verbatim>\<open>el.dataset.fallbackHref\<close>\<close>

type_synonym document = "string \<rightharpoonup> element"

definition or_else :: "string option \<Rightarrow> string \<Rightarrow> string" where
  \<comment> \<open>\<^verbatim>\<open>a || b\<close> on a string that may be missing: missing and empty are falsy\<close>
  "or_else a b = (case a of None \<Rightarrow> b | Some s \<Rightarrow> if s = [] then b else s)"

definition setHrefSafe :: "document \<Rightarrow> string \<Rightarrow> string \<Rightarrow> document" where
  \<comment> \<open>on the element \<^verbatim>\<open>document.getElementById(i)\<close>\<close>
  "setHrefSafe doc i h =
     (case doc i of
        None \<Rightarrow> doc
      | Some el \<Rightarrow> doc(i \<mapsto> el\<lparr>href := or_else (Some h) (or_else (fallbackHref el) latestRelease)\<rparr>))"

definition setTextSafe :: "document \<Rightarrow> string \<Rightarrow> string \<Rightarrow> document" where
  "setTextSafe doc i t =
     (case doc i of None \<Rightarrow> doc | Some el \<Rightarrow> doc(i \<mapsto> el\<lparr>textContent := t\<rparr>))"

definition bullet :: string where
  \<comment> \<open>the character U+2022, in UTF-8\<close>
  "bullet = [CHR 0xE2, CHR 0x80, CHR 0xA2]"

definition updateReleaseUI :: "document \<Rightarrow> release \<Rightarrow> document" where
  \<comment> \<open>a release is an object, so \<^verbatim>\<open>if (!release) return\<close> does not return\<close>
  "updateReleaseUI doc r =
     (let tag = or_else (tag_name r) [];
          cleaned = strip_v (trim tag);
          versionLabel = (if cleaned \<noteq> [] then ''Version '' @ cleaned @ '' '' @ bullet @ '' Now Available''
                          else ''Now Available'');
          doc1 = setTextSafe doc badgeText versionLabel;
          doc2 = (case doc1 badgeLink of
                    None \<Rightarrow> doc1
                  | Some el \<Rightarrow> doc1(badgeLink \<mapsto> el\<lparr>href := or_else (html_url r) latestRelease\<rparr>));
          doc3 = (case doc2 versionText of
                    None \<Rightarrow> doc2
                  | Some el \<Rightarrow>
                      setTextSafe doc2 versionText
                        (if cleaned \<noteq> [] then ''v'' @ cleaned @ '' '' @ bullet @ '' 64-bit'' else ''64-bit''));
          asset = pickWindowsAsset (assets r);
          downloadUrl = or_else (case asset of None \<Rightarrow> None | Some a \<Rightarrow> browser_download_url a)
                          (or_else (html_url r) latestRelease);
          doc4 = setHrefSafe doc3 heroDownload downloadUrl
      in setHrefSafe doc4 windowsDownload downloadUrl)"

subsection \<open>fetchLatestRelease\<close>

text \<open>
  The page is the storage, the document and the console. The outcome of \<^verbatim>\<open>fetch\<close> is an
  argument: \<open>Inl e\<close> when the promise rejects (a network error), otherwise a response with
  its \<^verbatim>\<open>ok\<close> flag, its status and what \<^verbatim>\<open>response.json()\<close> gives: a rejection for a body
  that is no JSON, a value that is no array, or the array of releases. The clock is read
  once by \<^verbatim>\<open>getCachedRelease\<close> (\<open>now\<close>) and once by \<^verbatim>\<open>cacheRelease\<close> (\<open>now'\<close>).
\<close>

datatype warning = RequestFailed nat | NoSuitableRelease | FailedToFetch js_error

record page =
  localStorage :: web_storage
  document :: document
  console :: "warning list"

datatype payload = Malformed | NotArray | Releases "release list"

datatype response = Response (ok: bool) (status: nat) (body: payload)

definition json :: "response \<Rightarrow> js_error + release list option" where
  \<comment> \<open>\<open>Inr None\<close>: a JSON value for which \<^verbatim>\<open>Array.isArray\<close> is false\<close>
  "json resp =
     (case body resp of
        Malformed \<Rightarrow> Inl SyntaxError
      | NotArray \<Rightarrow> Inr None
      | Releases rs \<Rightarrow> Inr (Some rs))"

definition warn :: "warning \<Rightarrow> page \<Rightarrow> page" where
  "warn w p = p\<lparr>console := console p @ [w]\<rparr>"

definition fetch_try :: "(string \<Rightarrow> int option) \<Rightarrow> int \<Rightarrow> js_error + response \<Rightarrow> page
    \<Rightarrow> (js_error \<times> page) + page" where
  \<comment> \<open>the \<^verbatim>\<open>try\<close> block of \<^verbatim>\<open>fetchLatestRelease\<close>; an exception comes with the page as it
      is when it is raised\<close>
  "fetch_try D now' net p =
     (case net of
        Inl e \<Rightarrow> Inl (e, p)
      | Inr resp \<Rightarrow>
          if \<not> ok resp then Inr (warn (RequestFailed (status resp)) p)
          else
            (case json resp of
               Inl e \<Rightarrow> Inl (e, p)
             | Inr releases \<Rightarrow>
                (case (case releases of None \<Rightarrow> None | Some rs \<Rightarrow> pickBestRelease D rs) of
                   None \<Rightarrow> Inr (warn NoSuitableRelease p)
                 | Some best \<Rightarrow>
                    (let p1 = p\<lparr>document := updateReleaseUI (document p) best\<rparr> in
                     case cacheRelease now' best (localStorage p1) of
                       Inl e \<Rightarrow> Inl (e, p1)
                     | Inr s' \<Rightarrow> Inr (p1\<lparr>localStorage := s'\<rparr>)))))"

definition fetchLatestRelease :: "(string \<Rightarrow> int option) \<Rightarrow> int \<Rightarrow> int \<Rightarrow> js_error + response
    \<Rightarrow> page \<Rightarrow> js_error + page" where
  "fetchLatestRelease D now now' net p =
     (case getCachedRelease now (localStorage p) of
        Inl e \<Rightarrow> Inl e
      | Inr (Some cached) \<Rightarrow> Inr (p\<lparr>document := updateReleaseUI (document p) cached\<rparr>)
      | Inr None \<Rightarrow>
         (case fetch_try D now' net p of
            Inl (error, p') \<Rightarrow> Inr (warn (FailedToFetch error) p')
          | Inr p' \<Rightarrow> Inr p'))"

subsection \<open>The words of the specification\<close>

text \<open>
  The predicates in which the properties below are stated. They say what the
  specification says, with no reference to how the script computes.
\<close>

definition digits :: "string \<Rightarrow> bool" where
  \<comment> \<open>a non-empty string of decimal digits\<close>
  "digits ds = (ds \<noteq> [] \<and> (\<forall>c\<in>set ds. is_digit c))"

definition version_at :: "string \<Rightarrow> bool" where
  \<comment> \<open>the string begins with a substring of the form digits, dot, digits, dot, digits\<close>
  "version_at s =
     (\<exists>d1 d2 d3 post. s = d1 @ ''.'' @ d2 @ ''.'' @ d3 @ post \<and> digits d1 \<and> digits d2 \<and> digits d3)"

definition has_version :: "string \<Rightarrow> bool" where
  \<comment> \<open>the string contains such a substring\<close>
  "has_version s = (\<exists>pre rest. s = pre @ rest \<and> version_at rest)"

definition exe_name :: "asset \<Rightarrow> bool" where
  \<comment> \<open>the name ends with \<^verbatim>\<open>.exe\<close>, letter case ignored\<close>
  "exe_name a = (\<exists>n. name a = Some n \<and> suffix ''.exe'' (toLowerCase n))"

definition name_has :: "string \<Rightarrow> asset \<Rightarrow> bool" where
  \<comment> \<open>the name contains the keyword, letter case ignored\<close>
  "name_has kw a = (\<exists>n. name a = Some n \<and> sublist kw (toLowerCase n))"

definition tier1 :: "asset \<Rightarrow> bool" where
  \<comment> \<open>an executable named after the product and after a role\<close>
  "tier1 a =
     (exe_name a \<and> name_has ''opendrop'' a \<and>
      (name_has ''server'' a \<or> name_has ''setup'' a \<or> name_has ''installer'' a
       \<or> name_has ''windows'' a))"

definition tier2 :: "asset \<Rightarrow> bool" where
  \<comment> \<open>an executable named after the product\<close>
  "tier2 a = (exe_name a \<and> name_has ''opendrop'' a)"

definition first_in :: "('a \<Rightarrow> bool) \<Rightarrow> 'a list \<Rightarrow> 'a \<Rightarrow> bool" where
  \<comment> \<open>\<open>a\<close> is the first element of the list, in its order, that satisfies \<open>P\<close>\<close>
  "first_in P xs a = (\<exists>pre post. xs = pre @ a # post \<and> P a \<and> (\<forall>x\<in>set pre. \<not> P x))"

subsection \<open>Sample data\<close>

definition sample :: "string \<Rightarrow> bool \<Rightarrow> bool \<Rightarrow> string option \<Rightarrow> release" where
  \<comment> \<open>a release with the given tag, draft flag, prerelease flag and publication date\<close>
  "sample t d p pub =
     \<lparr>tag_name = Some t, draft = d, prerelease = p, published_at = pub, html_url = None, assets = []\<rparr>"

definition download :: "string \<Rightarrow> asset" where
  \<comment> \<open>an asset with the given file name\<close>
  "download n = \<lparr>name = Some n, browser_download_url = Some (''https://example.org/'' @ n)\<rparr>"

definition long_tag :: string where
  \<comment> \<open>a tag whose patch has 400 digits\<close>
  "long_tag = ''1.0.'' @ replicate 400 (CHR ''9'')"


definition working_storage :: web_storage where
  "working_storage = \<lparr>reads = None, writes = (\<lambda>t. None), item = None\<rparr>"

definition full_storage :: web_storage where
  \<comment> \<open>every write exceeds the quota\<close>
  "full_storage = \<lparr>reads = None, writes = (\<lambda>t. Some QuotaExceededError), item = None\<rparr>"

definition blocked_storage :: web_storage where
  \<comment> \<open>the browser denies access to the storage\<close>
  "blocked_storage =
     \<lparr>reads = Some SecurityError, writes = (\<lambda>t. Some SecurityError), item = None\<rparr>"

definition sample_document :: document where
  "sample_document =
     [badgeText \<mapsto> \<lparr>textContent = ''Now Available'', href = [], fallbackHref = None\<rparr>,
      heroDownload \<mapsto>
        \<lparr>textContent = ''Download'', href = releasesPage, fallbackHref = Some releasesPage\<rparr>]"

definition sample_page :: page where
  "sample_page = \<lparr>localStorage = working_storage, document = sample_document, console = []\<rparr>"

section \<open>Evaluating numbers and tags\<close>

lemma to_double_small: "n < 2 ^ 53 \<Longrightarrow> to_double n = enat n"
  by (simp add: to_double_def)

lemma to_double_huge: "2 ^ 1024 \<le> n \<Longrightarrow> to_double n = \<infinity>"
proof -
  assume a: "2 ^ 1024 \<le> n"
  have "(2::nat) ^ 53 \<le> 2 ^ 1024"
    by simp
  with a have "\<not> n < 2 ^ 53"
    by linarith
  with a show ?thesis
    by (simp add: to_double_def)
qed

lemma Number_small: "decimal ds < 2 ^ 53 \<Longrightarrow> Number ds = enat (decimal ds)"
  by (simp add: Number_def to_double_small)

lemma decimal_snoc: "decimal (ds @ [c]) = 10 * decimal ds + digit_val c"
  by (simp add: decimal_def)

lemma decimal_nines: "decimal (replicate n (CHR ''9'')) = 10 ^ n - 1"
proof (induction n)
  case 0
  then show ?case
    by (simp add: decimal_def)
next
  case (Suc n)
  have "replicate (Suc n) (CHR ''9'') = replicate n (CHR ''9'') @ [CHR ''9'']"
    by (simp add: replicate_append_same)
  then have "decimal (replicate (Suc n) (CHR ''9'')) = 10 * (10 ^ n - 1) + 9"
    using Suc by (simp only: decimal_snoc) (simp add: digit_val_def)
  moreover obtain k where "(10::nat) ^ n = Suc k"
    by (cases "(10::nat) ^ n") auto
  ultimately show ?case
    by simp
qed

lemma Number_digits:
  "Number ''0'' = 0" "Number ''1'' = 1" "Number ''2'' = 2" "Number ''3'' = 3"
  "Number ''10'' = 10" "Number ''20'' = 20" "Number ''30'' = 30"
  by (simp_all add: Number_def decimal_def digit_val_def to_double_def numeral_eq_enat
      zero_enat_def one_enat_def)

lemma Number_rounds: "Number ''9007199254740993'' = 9007199254740992"
  by (simp add: Number_def decimal_def digit_val_def to_double_def bit_width.simps Let_def
      numeral_eq_enat)

lemma Number_overflows: "Number (replicate 400 (CHR ''9'')) = \<infinity>"
  by (simp add: Number_def decimal_nines to_double_huge)

lemma parseSemver_match:
  "t \<noteq> [] \<Longrightarrow> regex_match (strip_v (trim t)) = Some (d1, d2, d3) \<Longrightarrow>
     parseSemver (Some t) = Some \<lparr>major = Number d1, minor = Number d2, patch = Number d3\<rparr>"
  by (simp add: parseSemver_def)

lemma parseSemver_no_match:
  "regex_match (strip_v (trim t)) = None \<Longrightarrow> parseSemver (Some t) = None"
  by (simp add: parseSemver_def)

lemma parse_v100: "parseSemver (Some ''v1.0.0'') = Some \<lparr>major = 1, minor = 0, patch = 0\<rparr>"
proof -
  have "regex_match (strip_v (trim ''v1.0.0'')) = Some (''1'', ''0'', ''0'')"
    by code_simp
  then show ?thesis
    by (simp add: parseSemver_match Number_digits)
qed


lemma long_tag_not_empty: "long_tag \<noteq> []"
  by (simp add: long_tag_def)

lemma parse_long_tag:
  "parseSemver (Some long_tag) = Some \<lparr>major = 1, minor = 0, patch = \<infinity>\<rparr>"
proof -
  have "regex_match (strip_v (trim long_tag)) = Some (''1'', ''0'', replicate 400 (CHR ''9''))"
    by code_simp
  then show ?thesis
    by (simp add: parseSemver_match long_tag_not_empty Number_digits Number_overflows)
qed

lemma trim_samples:
  "trim ''v1.0.0'' = ''v1.0.0''" "trim ''v2.3.4'' = ''v2.3.4''"
  by code_simp+

section \<open>Properties of the release selection\<close>

subsection \<open>The loop over the candidates\<close>

lemma step_cases:
  "step D best r = best \<or> (\<exists>sv. step D best r = Some (r, sv) \<and> parseSemver (tag_name r) = Some sv)"
  by (auto simp: step_def Let_def split: option.splits prod.splits)

lemma foldl_step_mem:
  "foldl (step D) acc cs = Some (r, sv) \<Longrightarrow>
     acc = Some (r, sv) \<or> (r \<in> set cs \<and> parseSemver (tag_name r) = Some sv)"
proof (induction cs arbitrary: acc)
  case Nil
  then show ?case by simp
next
  case (Cons c cs)
  from Cons.prems have "foldl (step D) (step D acc c) cs = Some (r, sv)" by simp
  from Cons.IH[OF this] step_cases[of D acc c] show ?case by auto
qed

lemma scan_mem:
  "scan D cs = Some (r, sv) \<Longrightarrow> r \<in> set cs \<and> parseSemver (tag_name r) = Some sv"
  using foldl_step_mem[of D None cs r sv] by (simp add: scan_def)

lemma foldl_step_unparseable:
  "\<forall>c\<in>set cs. parseSemver (tag_name c) = None \<Longrightarrow> foldl (step D) acc cs = acc"
  by (induction cs arbitrary: acc) (auto simp: step_def)

lemma scan_unparseable:
  "\<forall>c\<in>set cs. parseSemver (tag_name c) = None \<Longrightarrow> scan D cs = None"
  by (simp add: scan_def foldl_step_unparseable)

subsection \<open>The candidate pool\<close>

lemma candidates_filter:
  "candidates rs =
     filter (\<lambda>r. \<not> draft r \<and> ((\<exists>s\<in>set rs. \<not> draft s \<and> \<not> prerelease s) \<longrightarrow> \<not> prerelease r)) rs"
proof (cases "\<exists>s\<in>set rs. \<not> draft s \<and> \<not> prerelease s")
  case True
  then have "stable rs \<noteq> []"
    by (auto simp: stable_def nonDrafts_def filter_empty_conv)
  with True show ?thesis
    by (auto simp: candidates_def stable_def nonDrafts_def intro: filter_cong)
next
  case False
  then have "stable rs = []"
    by (auto simp: stable_def nonDrafts_def filter_empty_conv)
  with False show ?thesis
    by (auto simp: candidates_def nonDrafts_def intro: filter_cong)
qed

lemma pick_mem: "pickBestRelease D rs = Some r \<Longrightarrow> r \<in> set (candidates rs)"
  by (auto simp: pickBestRelease_def Let_def
      split: if_splits option.splits list.splits prod.splits dest: scan_mem)

lemma pick_None_iff: "pickBestRelease D rs = None \<longleftrightarrow> candidates rs = []"
  by (auto simp: pickBestRelease_def Let_def candidates_def stable_def nonDrafts_def scan_def
      split: option.splits list.splits prod.splits)

subsection \<open>Drafts are never selected\<close>

text \<open>
  C1. Whatever the list of releases, a release that \<open>pickBestRelease\<close> returns is an
  element of the list whose draft flag is not set.
\<close>

theorem pickBestRelease_never_draft:
  "pickBestRelease D rs = Some r \<Longrightarrow> r \<in> set rs \<and> \<not> draft r"
  using pick_mem[of D rs r] by (simp add: candidates_filter)

theorem pickBestRelease_never_draft_witness:
  "pickBestRelease (\<lambda>s. None) [sample ''v9.0.0'' True False None, sample ''v1.0.0'' False False None]
     = Some (sample ''v1.0.0'' False False None)
   \<and> sample ''v1.0.0'' False False None
       \<in> set [sample ''v9.0.0'' True False None, sample ''v1.0.0'' False False None]
   \<and> \<not> draft (sample ''v1.0.0'' False False None)"
proof -
  have h: "pickBestRelease (\<lambda>s. None)
      [sample ''v9.0.0'' True False None, sample ''v1.0.0'' False False None]
     = Some (sample ''v1.0.0'' False False None)"
    by (simp add: pickBestRelease_def candidates_def stable_def nonDrafts_def scan_def step_def
        sample_def parse_v100)
  from pickBestRelease_never_draft[OF h] h show ?thesis by simp
qed

subsection \<open>A stable release is preferred to any prerelease\<close>

text \<open>
  C2. A prerelease is returned only if no release of the list is both published (not a
  draft) and stable (not a prerelease). When such a release exists, the release returned
  is one of them; so of a stable v1.0.0 and a prerelease v1.1.0 the stable v1.0.0 is
  returned, whatever the other fields are.
\<close>

theorem pickBestRelease_prefers_stable:
  "(pickBestRelease D rs = Some r \<and> prerelease r \<longrightarrow>
      \<not> (\<exists>s\<in>set rs. \<not> draft s \<and> \<not> prerelease s))
   \<and> ((\<exists>s\<in>set rs. \<not> draft s \<and> \<not> prerelease s) \<longrightarrow>
        (\<exists>w. pickBestRelease D rs = Some w \<and> w \<in> set rs \<and> \<not> draft w \<and> \<not> prerelease w))
   \<and> pickBestRelease D
       [\<lparr>tag_name = Some ''v1.0.0'', draft = False, prerelease = False, published_at = p1,
          html_url = u1, assets = a1\<rparr>,
        \<lparr>tag_name = Some ''v1.1.0'', draft = False, prerelease = True, published_at = p2,
          html_url = u2, assets = a2\<rparr>]
     = Some \<lparr>tag_name = Some ''v1.0.0'', draft = False, prerelease = False, published_at = p1,
          html_url = u1, assets = a1\<rparr>"
proof (intro conjI impI)
  assume "pickBestRelease D rs = Some r \<and> prerelease r"
  then show "\<not> (\<exists>s\<in>set rs. \<not> draft s \<and> \<not> prerelease s)"
    using pick_mem[of D rs r] by (auto simp: candidates_filter)
next
  assume a: "\<exists>s\<in>set rs. \<not> draft s \<and> \<not> prerelease s"
  then have "candidates rs \<noteq> []"
    by (auto simp: candidates_filter filter_empty_conv)
  then obtain w where w: "pickBestRelease D rs = Some w"
    using pick_None_iff[of D rs] by (cases "pickBestRelease D rs") auto
  from pick_mem[OF w] a have "w \<in> set rs \<and> \<not> draft w \<and> \<not> prerelease w"
    by (auto simp: candidates_filter)
  with w show "\<exists>w. pickBestRelease D rs = Some w \<and> w \<in> set rs \<and> \<not> draft w \<and> \<not> prerelease w"
    by blast
next
  show "pickBestRelease D
       [\<lparr>tag_name = Some ''v1.0.0'', draft = False, prerelease = False, published_at = p1,
          html_url = u1, assets = a1\<rparr>,
        \<lparr>tag_name = Some ''v1.1.0'', draft = False, prerelease = True, published_at = p2,
          html_url = u2, assets = a2\<rparr>]
     = Some \<lparr>tag_name = Some ''v1.0.0'', draft = False, prerelease = False, published_at = p1,
          html_url = u1, assets = a1\<rparr>"
    by (simp add: pickBestRelease_def candidates_def stable_def nonDrafts_def scan_def step_def
        parse_v100)
qed

theorem pickBestRelease_prefers_stable_witness:
  "pickBestRelease (\<lambda>s. None) [sample ''v2.0.0-rc1'' False True None] = Some (sample ''v2.0.0-rc1'' False True None)
   \<and> prerelease (sample ''v2.0.0-rc1'' False True None)
   \<and> \<not> (\<exists>s\<in>set [sample ''v2.0.0-rc1'' False True None]. \<not> draft s \<and> \<not> prerelease s)
   \<and> (\<exists>s\<in>set [sample ''v1.0.0'' False False None, sample ''v1.1.0'' False True None].
         \<not> draft s \<and> \<not> prerelease s)
   \<and> (\<exists>w. pickBestRelease (\<lambda>s. None)
              [sample ''v1.0.0'' False False None, sample ''v1.1.0'' False True None] = Some w
          \<and> w \<in> set [sample ''v1.0.0'' False False None, sample ''v1.1.0'' False True None]
          \<and> \<not> draft w \<and> \<not> prerelease w)"
proof -
  have h1: "pickBestRelease (\<lambda>s. None) [sample ''v2.0.0-rc1'' False True None]
      = Some (sample ''v2.0.0-rc1'' False True None)
    \<and> prerelease (sample ''v2.0.0-rc1'' False True None)"
    by (simp add: pickBestRelease_def candidates_def stable_def nonDrafts_def scan_def step_def
        sample_def split: option.splits)
  have h2: "\<exists>s\<in>set [sample ''v1.0.0'' False False None, sample ''v1.1.0'' False True None].
         \<not> draft s \<and> \<not> prerelease s"
    by (simp add: sample_def)
  from pickBestRelease_prefers_stable[of "\<lambda>s. None" "[sample ''v2.0.0-rc1'' False True None]"
      "sample ''v2.0.0-rc1'' False True None"] h1
  have "\<not> (\<exists>s\<in>set [sample ''v2.0.0-rc1'' False True None]. \<not> draft s \<and> \<not> prerelease s)"
    by blast
  moreover from pickBestRelease_prefers_stable[of "\<lambda>s. None"
      "[sample ''v1.0.0'' False False None, sample ''v1.1.0'' False True None]"] h2
  have "\<exists>w. pickBestRelease (\<lambda>s. None)
              [sample ''v1.0.0'' False False None, sample ''v1.1.0'' False True None] = Some w
          \<and> w \<in> set [sample ''v1.0.0'' False False None, sample ''v1.1.0'' False True None]
          \<and> \<not> draft w \<and> \<not> prerelease w"
    by blast
  ultimately show ?thesis using h1 h2 by blast
qed

subsection \<open>The fallback to the first candidate\<close>

text \<open>
  C8. When the candidate pool is not empty and no tag in it has a version that
  \<open>parseSemver\<close> reads, the first release of the pool is returned. Nothing is returned
  exactly when the pool is empty. The pool keeps the order of the input: it is the input
  filtered, to the releases that are not drafts and, when one of those is stable, are not
  prereleases either.
\<close>

theorem pickBestRelease_fallback:
  "(candidates rs \<noteq> [] \<and> (\<forall>c\<in>set (candidates rs). parseSemver (tag_name c) = None)
      \<longrightarrow> pickBestRelease D rs = Some (hd (candidates rs)))
   \<and> (pickBestRelease D rs = None \<longleftrightarrow> candidates rs = [])
   \<and> candidates rs =
       filter (\<lambda>r. \<not> draft r \<and> ((\<exists>s\<in>set rs. \<not> draft s \<and> \<not> prerelease s) \<longrightarrow> \<not> prerelease r)) rs"
proof (intro conjI impI)
  assume a: "candidates rs \<noteq> [] \<and> (\<forall>c\<in>set (candidates rs). parseSemver (tag_name c) = None)"
  then have "scan D (candidates rs) = None"
    by (simp add: scan_unparseable)
  moreover from a have "rs \<noteq> []"
    by (auto simp: candidates_filter)
  ultimately show "pickBestRelease D rs = Some (hd (candidates rs))"
    using a by (simp add: pickBestRelease_def split: list.splits)
qed (rule pick_None_iff, rule candidates_filter)

theorem pickBestRelease_fallback_witness:
  "candidates [sample ''nightly'' True False None, sample ''beta'' False True None,
       sample ''latest'' False False None, sample ''stable'' False False None]
     = [sample ''latest'' False False None, sample ''stable'' False False None]
   \<and> parseSemver (tag_name (sample ''latest'' False False None)) = None
   \<and> parseSemver (tag_name (sample ''stable'' False False None)) = None
   \<and> pickBestRelease (\<lambda>s. None) [sample ''nightly'' True False None, sample ''beta'' False True None,
       sample ''latest'' False False None, sample ''stable'' False False None]
     = Some (sample ''latest'' False False None)
   \<and> candidates [sample ''nightly'' True False None] = []
   \<and> pickBestRelease (\<lambda>s. None) [sample ''nightly'' True False None] = None"
proof -
  let ?rs = "[sample ''nightly'' True False None, sample ''beta'' False True None,
       sample ''latest'' False False None, sample ''stable'' False False None]"
  have c: "candidates ?rs = [sample ''latest'' False False None, sample ''stable'' False False None]"
    by (simp add: candidates_def stable_def nonDrafts_def sample_def)
  have p1: "parseSemver (tag_name (sample ''latest'' False False None)) = None"
    by code_simp
  have p2: "parseSemver (tag_name (sample ''stable'' False False None)) = None"
    by code_simp
  have e: "candidates [sample ''nightly'' True False None] = []"
    by (simp add: candidates_def stable_def nonDrafts_def sample_def)
  from pickBestRelease_fallback[of ?rs "\<lambda>s. None"] c p1 p2
  have "pickBestRelease (\<lambda>s. None) ?rs = Some (sample ''latest'' False False None)"
    by simp
  moreover from pickBestRelease_fallback[of "[sample ''nightly'' True False None]" "\<lambda>s. None"] e
  have "pickBestRelease (\<lambda>s. None) [sample ''nightly'' True False None] = None"
    by simp
  ultimately show ?thesis using c p1 p2 e by simp
qed

subsection \<open>The tie-break on the publication time\<close>


lemma compareSemver_NaN: "patch v = \<infinity> \<Longrightarrow> compareSemver v v = NaN"
  by (simp add: compareSemver_def subtract_def)


lemma step_NaN:
  assumes "parseSemver (tag_name r) = Some v" and "patch v = \<infinity>"
  shows "step D (Some (b, v)) r = Some (b, v)"
  using assms by (simp add: step_def compareSemver_NaN gt0_def eq0_def)




section \<open>Properties of the cache\<close>

lemma getCachedRelease_total: "\<exists>v. getCachedRelease now s = Inr v"
  by (simp add: getCachedRelease_def split: sum.splits)

lemma cacheRelease_total: "\<exists>s'. cacheRelease now r s = Inr s'"
  by (simp add: cacheRelease_def split: sum.splits)

lemma getCachedRelease_Some_iff:
  "getCachedRelease now s = Inr (Some r) \<longleftrightarrow>
     (\<exists>t. reads s = None \<and> item s = Some (Encoded (JObject (Some t) (Some r)))
        \<and> t \<noteq> 0 \<and> now - t < cacheTTL)"
  by (auto simp: getCachedRelease_def getCachedRelease_try_def getItem_def JSON_parse_def
      isValid_def split: sum.splits option.splits stored.splits decoded.splits if_splits)

lemma getCachedRelease_miss:
  "\<not> (\<exists>t r. reads s = None \<and> item s = Some (Encoded (JObject (Some t) (Some r)))
        \<and> t \<noteq> 0 \<and> now - t < cacheTTL)
   \<Longrightarrow> getCachedRelease now s = Inr None"
proof -
  assume a: "\<not> (\<exists>t r. reads s = None \<and> item s = Some (Encoded (JObject (Some t) (Some r)))
        \<and> t \<noteq> 0 \<and> now - t < cacheTTL)"
  obtain v where v: "getCachedRelease now s = Inr v"
    using getCachedRelease_total by blast
  with a show ?thesis
    by (cases v) (auto simp: getCachedRelease_Some_iff)
qed

subsection \<open>Storage failures stay inside the cache\<close>

text \<open>
  C9. Whatever the storage does, \<open>getCachedRelease\<close> and \<open>cacheRelease\<close> return normally:
  neither result is an exception. A read that raises and a stored text that cannot be
  decoded give the result of a miss; a write that raises (no access, quota exceeded)
  leaves the storage as it was.
\<close>

theorem cache_swallows_failures:
  "(\<exists>v. getCachedRelease now s = Inr v)
   \<and> (\<exists>s'. cacheRelease now r s = Inr s')
   \<and> (reads s = Some e \<longrightarrow> getCachedRelease now s = Inr None)
   \<and> (item s = Some Garbled \<longrightarrow> getCachedRelease now s = Inr None)
   \<and> (writes s (JSON_stringify (JObject (Some now) (Some r))) = Some e
        \<longrightarrow> cacheRelease now r s = Inr s)"
proof (intro conjI impI)
  show "\<exists>v. getCachedRelease now s = Inr v"
    by (rule getCachedRelease_total)
  show "\<exists>s'. cacheRelease now r s = Inr s'"
    by (rule cacheRelease_total)
next
  assume "reads s = Some e"
  then show "getCachedRelease now s = Inr None"
    by (simp add: getCachedRelease_miss)
next
  assume "item s = Some Garbled"
  then show "getCachedRelease now s = Inr None"
    by (simp add: getCachedRelease_miss)
next
  assume "writes s (JSON_stringify (JObject (Some now) (Some r))) = Some e"
  then show "cacheRelease now r s = Inr s"
    by (simp add: cacheRelease_def cacheRelease_try_def setItem_def)
qed

theorem cache_swallows_failures_witness:
  "reads blocked_storage = Some SecurityError
   \<and> getCachedRelease 1000 blocked_storage = Inr None
   \<and> item (working_storage\<lparr>item := Some Garbled\<rparr>) = Some Garbled
   \<and> getCachedRelease 1000 (working_storage\<lparr>item := Some Garbled\<rparr>) = Inr None
   \<and> writes full_storage
        (JSON_stringify (JObject (Some 1000) (Some (sample ''v1.0.0'' False False None))))
       = Some QuotaExceededError
   \<and> cacheRelease 1000 (sample ''v1.0.0'' False False None) full_storage = Inr full_storage"
proof -
  note T = cache_swallows_failures
  have h1: "reads blocked_storage = Some SecurityError"
    by (simp add: blocked_storage_def)
  have h2: "item (working_storage\<lparr>item := Some Garbled\<rparr>) = Some Garbled"
    by simp
  have h3: "writes full_storage
      (JSON_stringify (JObject (Some 1000) (Some (sample ''v1.0.0'' False False None))))
       = Some QuotaExceededError"
    by (simp add: full_storage_def)
  from T[where s=blocked_storage and e=SecurityError and now=1000] h1
  have r1: "getCachedRelease 1000 blocked_storage = Inr None"
    by blast
  from T[where s="working_storage\<lparr>item := Some Garbled\<rparr>" and now=1000] h2
  have r2: "getCachedRelease 1000 (working_storage\<lparr>item := Some Garbled\<rparr>) = Inr None"
    by blast
  from T[where s=full_storage and now=1000 and r="sample ''v1.0.0'' False False None"
      and e=QuotaExceededError] h3
  have r3: "cacheRelease 1000 (sample ''v1.0.0'' False False None) full_storage
      = Inr full_storage"
    by blast
  from h1 h2 h3 r1 r2 r3 show ?thesis
    by blast
qed

subsection \<open>A hit needs a truthy time stamp and a truthy release\<close>

text \<open>
  C10. \<open>getCachedRelease\<close> returns a release only from a decoded entry whose \<^verbatim>\<open>ts\<close> is a
  number other than 0, less than the time to live ago, and whose \<^verbatim>\<open>release\<close> is truthy.
  An entry with the time stamp 0, with no time stamp, or with a falsy release is a miss,
  whatever the clock says.
\<close>

theorem getCachedRelease_needs_truthy_fields:
  "(getCachedRelease now s = Inr (Some r) \<longrightarrow>
      (\<exists>t. item s = Some (Encoded (JObject (Some t) (Some r))) \<and> t \<noteq> 0 \<and> now - t < cacheTTL))
   \<and> (item s = Some (Encoded (JObject (Some 0) x)) \<longrightarrow> getCachedRelease now s = Inr None)
   \<and> (item s = Some (Encoded (JObject None x)) \<longrightarrow> getCachedRelease now s = Inr None)
   \<and> (item s = Some (Encoded (JObject t None)) \<longrightarrow> getCachedRelease now s = Inr None)"
proof (intro conjI impI)
  assume "getCachedRelease now s = Inr (Some r)"
  then show "\<exists>t. item s = Some (Encoded (JObject (Some t) (Some r))) \<and> t \<noteq> 0 \<and> now - t < cacheTTL"
    by (auto simp: getCachedRelease_Some_iff)
next
  assume "item s = Some (Encoded (JObject (Some 0) x))"
  then show "getCachedRelease now s = Inr None"
    by (simp add: getCachedRelease_miss)
next
  assume "item s = Some (Encoded (JObject None x))"
  then show "getCachedRelease now s = Inr None"
    by (simp add: getCachedRelease_miss)
next
  assume "item s = Some (Encoded (JObject t None))"
  then show "getCachedRelease now s = Inr None"
    by (simp add: getCachedRelease_miss)
qed

theorem getCachedRelease_needs_truthy_fields_witness:
  "getCachedRelease 5000 (working_storage\<lparr>item := Some (Encoded (JObject (Some 1000) (Some (sample ''v1.0.0'' False False None))))\<rparr>)
     = Inr (Some (sample ''v1.0.0'' False False None))
   \<and> (\<exists>t. item (working_storage\<lparr>item := Some (Encoded (JObject (Some 1000) (Some (sample ''v1.0.0'' False False None))))\<rparr>)
          = Some (Encoded (JObject (Some t) (Some (sample ''v1.0.0'' False False None))))
        \<and> t \<noteq> 0 \<and> 5000 - t < cacheTTL)
   \<and> getCachedRelease 5000 (working_storage\<lparr>item := Some (Encoded (JObject (Some 0) (Some (sample ''v1.0.0'' False False None))))\<rparr>)
     = Inr None
   \<and> getCachedRelease 5000 (working_storage\<lparr>item := Some (Encoded (JObject None (Some (sample ''v1.0.0'' False False None))))\<rparr>)
     = Inr None
   \<and> getCachedRelease 5000 (working_storage\<lparr>item := Some (Encoded (JObject (Some 1000) None))\<rparr>)
     = Inr None"
proof -
  let ?r = "sample ''v1.0.0'' False False None"
  note T = getCachedRelease_needs_truthy_fields
  have h: "getCachedRelease 5000 (working_storage\<lparr>item := Some (Encoded (JObject (Some 1000) (Some ?r)))\<rparr>)
     = Inr (Some ?r)"
    by (simp add: getCachedRelease_def getCachedRelease_try_def getItem_def JSON_parse_def
        isValid_def working_storage_def cacheTTL_def)
  from T[where now=5000 and r="?r"
      and s="working_storage\<lparr>item := Some (Encoded (JObject (Some 1000) (Some ?r)))\<rparr>", THEN conjunct1] h
  have r1: "\<exists>t. item (working_storage\<lparr>item := Some (Encoded (JObject (Some 1000) (Some ?r)))\<rparr>)
          = Some (Encoded (JObject (Some t) (Some ?r))) \<and> t \<noteq> 0 \<and> 5000 - t < cacheTTL"
    by blast
  from T[where now=5000 and x="Some ?r"
      and s="working_storage\<lparr>item := Some (Encoded (JObject (Some 0) (Some ?r)))\<rparr>",
      THEN conjunct2, THEN conjunct1]
  have r2: "getCachedRelease 5000 (working_storage\<lparr>item := Some (Encoded (JObject (Some 0) (Some ?r)))\<rparr>)
     = Inr None" by simp
  from T[where now=5000 and x="Some ?r"
      and s="working_storage\<lparr>item := Some (Encoded (JObject None (Some ?r)))\<rparr>",
      THEN conjunct2, THEN conjunct2, THEN conjunct1]
  have r3: "getCachedRelease 5000 (working_storage\<lparr>item := Some (Encoded (JObject None (Some ?r)))\<rparr>)
     = Inr None" by simp
  from T[where now=5000 and t="Some 1000"
      and s="working_storage\<lparr>item := Some (Encoded (JObject (Some 1000) None))\<rparr>",
      THEN conjunct2, THEN conjunct2, THEN conjunct2]
  have r4: "getCachedRelease 5000 (working_storage\<lparr>item := Some (Encoded (JObject (Some 1000) None))\<rparr>)
     = Inr None" by simp
  from h r1 r2 r3 r4 show ?thesis by blast
qed

subsection \<open>Writing and reading back\<close>

text \<open>
  C6, as the script has it. A release written and read back at once is not always
  returned: written when the clock reads 0 the entry has a falsy time stamp and is a miss,
  and a storage that refuses the write holds nothing to read.
\<close>

theorem cache_round_trip_counterexample:
  "round_trip 0 0 (sample ''v1.0.0'' False False None) working_storage = Inr None
   \<and> round_trip 1000 1000 (sample ''v1.0.0'' False False None) full_storage = Inr None"
  by (simp add: round_trip_def cacheRelease_def cacheRelease_try_def setItem_def JSON_stringify_def
      getCachedRelease_def getCachedRelease_try_def getItem_def JSON_parse_def isValid_def
      working_storage_def full_storage_def)

text \<open>
  C6, amended. When the storage accepts the read and the write and the clock does not
  read 0 at the write, a release written by \<open>cacheRelease\<close> is returned by a
  \<open>getCachedRelease\<close> that follows less than the time to live later. Whatever the
  storage, an entry is a miss once its age \<open>now - ts\<close> is the time to live or more. The
  time to live is six hours, in milliseconds.
\<close>

theorem cache_round_trip:
  "(reads s = None \<and> writes s (JSON_stringify (JObject (Some now) (Some r))) = None
      \<and> now \<noteq> 0 \<and> now' - now < cacheTTL
      \<longrightarrow> round_trip now now' r s = Inr (Some r))
   \<and> (item s = Some (Encoded (JObject (Some t) x)) \<and> now - t \<ge> cacheTTL
      \<longrightarrow> getCachedRelease now s = Inr None)
   \<and> cacheTTL = 21600000"
proof (intro conjI impI)
  assume "reads s = None \<and> writes s (JSON_stringify (JObject (Some now) (Some r))) = None
      \<and> now \<noteq> 0 \<and> now' - now < cacheTTL"
  then show "round_trip now now' r s = Inr (Some r)"
    by (simp add: round_trip_def cacheRelease_def cacheRelease_try_def setItem_def
        getCachedRelease_Some_iff JSON_stringify_def)
next
  assume a: "item s = Some (Encoded (JObject (Some t) x)) \<and> now - t \<ge> cacheTTL"
  obtain v where v: "getCachedRelease now s = Inr v" using getCachedRelease_total by blast
  with a show "getCachedRelease now s = Inr None"
    by (cases v) (auto simp: getCachedRelease_Some_iff)
next
  show "cacheTTL = 21600000" by (simp add: cacheTTL_def)
qed

theorem cache_round_trip_witness:
  "reads working_storage = None
   \<and> writes working_storage (JSON_stringify (JObject (Some 1000) (Some (sample ''v1.0.0'' False False None)))) = None
   \<and> (1000::int) \<noteq> 0 \<and> 1000 - 1000 < cacheTTL
   \<and> round_trip 1000 1000 (sample ''v1.0.0'' False False None) working_storage
       = Inr (Some (sample ''v1.0.0'' False False None))
   \<and> item (working_storage\<lparr>item := Some (Encoded (JObject (Some 1000) (Some (sample ''v1.0.0'' False False None))))\<rparr>)
       = Some (Encoded (JObject (Some 1000) (Some (sample ''v1.0.0'' False False None))))
   \<and> 21601000 - 1000 \<ge> cacheTTL
   \<and> getCachedRelease 21601000
        (working_storage\<lparr>item := Some (Encoded (JObject (Some 1000) (Some (sample ''v1.0.0'' False False None))))\<rparr>)
       = Inr None"
proof -
  let ?r = "sample ''v1.0.0'' False False None"
  note T = cache_round_trip
  have h1: "reads working_storage = None
     \<and> writes working_storage (JSON_stringify (JObject (Some 1000) (Some ?r))) = None
     \<and> (1000::int) \<noteq> 0 \<and> 1000 - 1000 < cacheTTL"
    by (simp add: working_storage_def cacheTTL_def)
  have h2: "item (working_storage\<lparr>item := Some (Encoded (JObject (Some 1000) (Some ?r)))\<rparr>)
       = Some (Encoded (JObject (Some 1000) (Some ?r))) \<and> 21601000 - 1000 \<ge> cacheTTL"
    by (simp add: cacheTTL_def)
  from T[where s=working_storage and now=1000 and now'=1000 and r="?r", THEN conjunct1] h1
  have r1: "round_trip 1000 1000 ?r working_storage = Inr (Some ?r)" by blast
  from T[where s="working_storage\<lparr>item := Some (Encoded (JObject (Some 1000) (Some ?r)))\<rparr>"
      and now=21601000 and t=1000 and x="Some ?r", THEN conjunct2, THEN conjunct1] h2
  have r2: "getCachedRelease 21601000
        (working_storage\<lparr>item := Some (Encoded (JObject (Some 1000) (Some ?r)))\<rparr>) = Inr None"
    by blast
  from h1 h2 r1 r2 show ?thesis by blast
qed

section \<open>Properties of fetchLatestRelease\<close>

text \<open>
  C7. On a cache miss, when the request fails (the promise of \<^verbatim>\<open>fetch\<close> rejects, or the
  response is not ok), \<open>fetchLatestRelease\<close> returns normally with the page as it was but
  for one more warning on the console: the document and the storage are unchanged.
\<close>

theorem fetch_failure_keeps_page:
  "(getCachedRelease now (localStorage p) = Inr None \<and> net = Inl e
      \<longrightarrow> fetchLatestRelease D now now' net p = Inr (p\<lparr>console := console p @ [FailedToFetch e]\<rparr>))
   \<and> (getCachedRelease now (localStorage p) = Inr None \<and> net = Inr resp \<and> \<not> ok resp
      \<longrightarrow> fetchLatestRelease D now now' net p
            = Inr (p\<lparr>console := console p @ [RequestFailed (status resp)]\<rparr>))"
  by (simp add: fetchLatestRelease_def fetch_try_def warn_def)

theorem fetch_failure_keeps_page_witness:
  "getCachedRelease 1000 (localStorage sample_page) = Inr None
   \<and> fetchLatestRelease (\<lambda>s. None) 1000 1001 (Inl TypeError) sample_page
       = Inr (sample_page\<lparr>console := console sample_page @ [FailedToFetch TypeError]\<rparr>)
   \<and> \<not> ok (Response False 403 Malformed)
   \<and> fetchLatestRelease (\<lambda>s. None) 1000 1001 (Inr (Response False 403 Malformed)) sample_page
       = Inr (sample_page\<lparr>console := console sample_page @ [RequestFailed 403]\<rparr>)"
proof -
  note T = fetch_failure_keeps_page
  have h: "getCachedRelease 1000 (localStorage sample_page) = Inr None"
    by (simp add: sample_page_def working_storage_def getCachedRelease_def getCachedRelease_try_def
        getItem_def)
  from T[where p=sample_page and now=1000 and now'=1001 and D="\<lambda>s. None" and e=TypeError
      and net="Inl TypeError", THEN conjunct1] h
  have r1: "fetchLatestRelease (\<lambda>s. None) 1000 1001 (Inl TypeError) sample_page
       = Inr (sample_page\<lparr>console := console sample_page @ [FailedToFetch TypeError]\<rparr>)"
    by blast
  from T[where p=sample_page and now=1000 and now'=1001 and D="\<lambda>s. None"
      and resp="Response False 403 Malformed"
      and net="Inr (Response False 403 Malformed)", THEN conjunct2] h
  have r2: "fetchLatestRelease (\<lambda>s. None) 1000 1001 (Inr (Response False 403 Malformed)) sample_page
       = Inr (sample_page\<lparr>console := console sample_page @ [RequestFailed 403]\<rparr>)"
    by simp
  from h r1 r2 show ?thesis by simp
qed

subsection \<open>The paths that do change the page\<close>

text \<open>
  For comparison: a successful request updates the badge and the download link and writes
  the cache, and a cache hit updates the document without any request being looked at.
\<close>

lemma fetch_success_example:
  "(case fetchLatestRelease (\<lambda>s. None) 1000 1001
      (Inr (Response True 200 (Releases [sample ''v1.0.0'' False False None]))) sample_page of
      Inl e \<Rightarrow> None
    | Inr p \<Rightarrow> Some (map_option textContent (document p badgeText),
                      map_option href (document p heroDownload),
                      item (localStorage p), console p))
   = Some (Some (''Version 1.0.0 '' @ bullet @ '' Now Available''), Some latestRelease,
           Some (Encoded (JObject (Some 1001) (Some (sample ''v1.0.0'' False False None)))), [])"
  by (simp add: fetchLatestRelease_def fetch_try_def sample_page_def working_storage_def
      getCachedRelease_def getCachedRelease_try_def getItem_def json_def
      pickBestRelease_def candidates_def stable_def nonDrafts_def scan_def step_def sample_def
      parse_v100 updateReleaseUI_def or_else_def trim_samples strip_v_def
      setTextSafe_def setHrefSafe_def sample_document_def badgeText_def badgeLink_def
      versionText_def heroDownload_def windowsDownload_def pickWindowsAsset_def
      cacheRelease_def cacheRelease_try_def setItem_def JSON_stringify_def Let_def
      latestRelease_def releasesPage_def)

lemma fetch_hit_example:
  "(case fetchLatestRelease (\<lambda>s. None) 5000 5001 (Inl TypeError)
      (sample_page\<lparr>localStorage := working_storage\<lparr>item :=
          Some (Encoded (JObject (Some 1000) (Some (sample ''v2.3.4'' False False None))))\<rparr>\<rparr>) of
      Inl e \<Rightarrow> None
    | Inr p \<Rightarrow> Some (map_option textContent (document p badgeText), console p))
   = Some (Some (''Version 2.3.4 '' @ bullet @ '' Now Available''), [])"
  by (simp add: fetchLatestRelease_def sample_page_def working_storage_def
      getCachedRelease_def getCachedRelease_try_def getItem_def JSON_parse_def isValid_def cacheTTL_def
      sample_def updateReleaseUI_def or_else_def trim_samples strip_v_def
      setTextSafe_def setHrefSafe_def sample_document_def badgeText_def badgeLink_def
      versionText_def heroDownload_def windowsDownload_def pickWindowsAsset_def Let_def)

section \<open>Properties of parseSemver\<close>

subsection \<open>The regular expression finds the first version\<close>

lemma dot_not_digit: "\<not> is_digit CHR ''.''"
  by (simp add: is_digit_def)

lemma takeWhile_digits:
  assumes "digits d" and "\<not> is_digit x"
  shows "takeWhile is_digit (d @ x # r) = d" and "dropWhile is_digit (d @ x # r) = x # r"
  using assms by (simp_all add: digits_def)

lemma digits_takeWhile: "takeWhile is_digit s \<noteq> [] \<Longrightarrow> digits (takeWhile is_digit s)"
  by (auto simp: digits_def dest: set_takeWhileD)

lemma match_here_Some:
  assumes "match_here s = Some (d1, d2, d3)"
  shows "\<exists>post. s = d1 @ ''.'' @ d2 @ ''.'' @ d3 @ post \<and> digits d1 \<and> digits d2 \<and> digits d3
           \<and> (post = [] \<or> \<not> is_digit (hd post))"
proof -
  define r1 where "r1 = dropWhile is_digit s"
  from assms have n1: "takeWhile is_digit s \<noteq> []" and e1: "d1 = takeWhile is_digit s"
    by (auto simp: match_here_def Let_def split: if_splits list.splits)
  from assms obtain s2 where r1: "dropWhile is_digit s = CHR ''.'' # s2"
    by (auto simp: match_here_def Let_def split: if_splits list.splits)
  from assms r1 have n2: "takeWhile is_digit s2 \<noteq> []" and e2: "d2 = takeWhile is_digit s2"
    by (auto simp: match_here_def Let_def split: if_splits list.splits)
  from assms r1 obtain s3 where r2: "dropWhile is_digit s2 = CHR ''.'' # s3"
    by (auto simp: match_here_def Let_def split: if_splits list.splits)
  from assms r1 r2 have n3: "takeWhile is_digit s3 \<noteq> []" and e3: "d3 = takeWhile is_digit s3"
    by (auto simp: match_here_def Let_def split: if_splits list.splits)
  have "s = takeWhile is_digit s @ dropWhile is_digit s" by simp
  also have "\<dots> = d1 @ CHR ''.'' # s2" using e1 r1 by simp
  also have "s2 = takeWhile is_digit s2 @ dropWhile is_digit s2" by simp
  then have "s2 = d2 @ CHR ''.'' # s3" using e2 r2 by simp
  also have "s3 = d3 @ dropWhile is_digit s3" using e3 by simp
  finally have s: "s = d1 @ ''.'' @ d2 @ ''.'' @ d3 @ dropWhile is_digit s3" by simp
  have p: "dropWhile is_digit s3 = [] \<or> \<not> is_digit (hd (dropWhile is_digit s3))"
    using hd_dropWhile[of is_digit s3] by blast
  from n1 n2 n3 e1 e2 e3 have "digits d1 \<and> digits d2 \<and> digits d3"
    by (simp add: digits_takeWhile)
  with s p show ?thesis by blast
qed

lemma match_here_version_at:
  assumes "version_at s"
  shows "match_here s \<noteq> None"
proof -
  from assms obtain d1 d2 d3 post where
    s: "s = d1 @ CHR ''.'' # d2 @ CHR ''.'' # d3 @ post" and d: "digits d1" "digits d2" "digits d3"
    by (auto simp: version_at_def)
  have t1: "takeWhile is_digit s = d1" "dropWhile is_digit s = CHR ''.'' # d2 @ CHR ''.'' # d3 @ post"
    using takeWhile_digits[OF d(1) dot_not_digit] s by simp_all
  have t2: "takeWhile is_digit (d2 @ CHR ''.'' # d3 @ post) = d2"
    "dropWhile is_digit (d2 @ CHR ''.'' # d3 @ post) = CHR ''.'' # d3 @ post"
    using takeWhile_digits[OF d(2) dot_not_digit] by simp_all
  have t3: "takeWhile is_digit (d3 @ post) = d3 @ takeWhile is_digit post"
    using d(3) by (simp add: digits_def)
  from d have ne: "d1 \<noteq> []" "d2 \<noteq> []" "d3 \<noteq> []" by (simp_all add: digits_def)
  show ?thesis
    by (simp add: match_here_def t1 t2 t3 ne)
qed

lemma regex_match_None: "regex_match s = None \<longleftrightarrow> \<not> has_version s"
proof (induction s)
  case Nil
  have "\<not> version_at []" by (auto simp: version_at_def digits_def)
  then show ?case by (simp add: has_version_def)
next
  case (Cons c cs)
  have hv: "has_version (c # cs) \<longleftrightarrow> version_at (c # cs) \<or> has_version cs"
  proof
    assume "has_version (c # cs)"
    then obtain pre rest where h: "c # cs = pre @ rest" "version_at rest"
      by (auto simp: has_version_def)
    show "version_at (c # cs) \<or> has_version cs"
    proof (cases pre)
      case Nil
      with h show ?thesis by simp
    next
      case (Cons p ps)
      with h have "cs = ps @ rest" by simp
      with h(2) show ?thesis unfolding has_version_def by blast
    qed
  next
    assume "version_at (c # cs) \<or> has_version cs"
    then show "has_version (c # cs)"
    proof
      assume "version_at (c # cs)"
      then have "c # cs = [] @ (c # cs) \<and> version_at (c # cs)" by simp
      then show ?thesis unfolding has_version_def by blast
    next
      assume "has_version cs"
      then obtain pre rest where "cs = pre @ rest" "version_at rest"
        by (auto simp: has_version_def)
      then have "c # cs = (c # pre) @ rest \<and> version_at rest" by simp
      then show ?thesis unfolding has_version_def by blast
    qed
  qed
  show ?case
  proof (cases "match_here (c # cs)")
    case None
    then have "\<not> version_at (c # cs)" using match_here_version_at by blast
    with None Cons hv show ?thesis by simp
  next
    case (Some m)
    obtain d1 d2 d3 where "m = (d1, d2, d3)" by (cases m) auto
    with Some have "version_at (c # cs)"
      using match_here_Some[of "c # cs" d1 d2 d3] unfolding version_at_def by blast
    with Some hv show ?thesis by simp
  qed
qed

lemma regex_match_Some:
  assumes "regex_match s = Some (d1, d2, d3)"
  shows "\<exists>pre post. s = pre @ d1 @ ''.'' @ d2 @ ''.'' @ d3 @ post
           \<and> digits d1 \<and> digits d2 \<and> digits d3
           \<and> (\<forall>p1 p2. pre = p1 @ p2 \<and> p2 \<noteq> [] \<longrightarrow>
                 \<not> version_at (p2 @ d1 @ ''.'' @ d2 @ ''.'' @ d3 @ post))
           \<and> (post = [] \<or> \<not> is_digit (hd post))"
  using assms
proof (induction s)
  case Nil
  then show ?case by simp
next
  case (Cons c cs)
  show ?case
  proof (cases "match_here (c # cs)")
    case (Some m)
    with Cons.prems have "match_here (c # cs) = Some (d1, d2, d3)" by simp
    from match_here_Some[OF this] obtain post where
      "c # cs = [] @ d1 @ ''.'' @ d2 @ ''.'' @ d3 @ post" "digits d1" "digits d2" "digits d3"
      "post = [] \<or> \<not> is_digit (hd post)"
      by auto
    then show ?thesis by (intro exI[of _ "[]"] exI[of _ post]) simp
  next
    case None
    with Cons.prems have "regex_match cs = Some (d1, d2, d3)" by simp
    from Cons.IH[OF this] obtain pre post where
      h: "cs = pre @ d1 @ ''.'' @ d2 @ ''.'' @ d3 @ post" "digits d1" "digits d2" "digits d3"
      "\<forall>p1 p2. pre = p1 @ p2 \<and> p2 \<noteq> [] \<longrightarrow> \<not> version_at (p2 @ d1 @ ''.'' @ d2 @ ''.'' @ d3 @ post)"
      "post = [] \<or> \<not> is_digit (hd post)"
      by blast
    from None have nv: "\<not> version_at (c # cs)" using match_here_version_at by blast
    have "\<forall>p1 p2. c # pre = p1 @ p2 \<and> p2 \<noteq> [] \<longrightarrow>
             \<not> version_at (p2 @ d1 @ ''.'' @ d2 @ ''.'' @ d3 @ post)"
    proof (intro allI impI)
      fix p1 p2
      assume a: "c # pre = p1 @ p2 \<and> p2 \<noteq> []"
      show "\<not> version_at (p2 @ d1 @ ''.'' @ d2 @ ''.'' @ d3 @ post)"
      proof (cases p1)
        case Nil
        with a have "p2 = c # pre" by simp
        with nv h(1) show ?thesis by simp
      next
        case (Cons q qs)
        with a have "pre = qs @ p2 \<and> p2 \<noteq> []" by simp
        with h(5) show ?thesis by blast
      qed
    qed
    with h show ?thesis
      by (intro exI[of _ "c # pre"] exI[of _ post]) simp
  qed
qed

subsection \<open>The stripping does not change what is found\<close>

lemma white_space_no_digit: "\<forall>w\<in>set white_space. \<forall>c\<in>set w. \<not> is_digit c"
  by (simp add: white_space_def is_digit_def)

lemma match_here_non_digit: "\<not> is_digit c \<Longrightarrow> match_here (c # cs) = None"
  by (simp add: match_here_def)

lemma regex_match_prepend: "\<forall>c\<in>set p. \<not> is_digit c \<Longrightarrow> regex_match (p @ s) = regex_match s"
  by (induction p) (simp_all add: match_here_non_digit)

lemma regex_match_strip_v: "regex_match (strip_v s) = regex_match s"
  by (cases s) (auto simp: strip_v_def match_here_non_digit is_digit_def)

lemma strip_lead_decomp:
  "\<exists>p. s = p @ strip_lead ws s \<and> (\<forall>c\<in>set p. \<exists>w\<in>set ws. c \<in> set w)"
proof (induction ws s rule: strip_lead.induct)
  case (1 ws s)
  show ?case
  proof (cases "find (\<lambda>w. w \<noteq> [] \<and> prefix w s) ws")
    case None
    then have "strip_lead ws s = s"
      by (simp add: strip_lead.simps[of ws s])
    then have "s = [] @ strip_lead ws s \<and> (\<forall>c\<in>set []. \<exists>w\<in>set ws. c \<in> set w)"
      by simp
    then show ?thesis
      by blast
  next
    case (Some w)
    then have w: "w \<in> set ws" "prefix w s"
      by (auto simp: find_Some_iff)
    from Some have e: "strip_lead ws s = strip_lead ws (drop (length w) s)"
      by (simp add: strip_lead.simps[of ws s])
    from "1.IH"[OF Some] obtain p where
      p: "drop (length w) s = p @ strip_lead ws (drop (length w) s)"
        "\<forall>c\<in>set p. \<exists>w\<in>set ws. c \<in> set w"
      by blast
    from w(2) have "s = w @ drop (length w) s"
      by (auto simp: prefix_def)
    with p(1) e have "s = (w @ p) @ strip_lead ws s"
      by simp
    moreover from w(1) p(2) have "\<forall>c\<in>set (w @ p). \<exists>w\<in>set ws. c \<in> set w"
      by auto
    ultimately show ?thesis
      by blast
  qed
qed

lemma version_at_append: "version_at s \<Longrightarrow> version_at (s @ x)"
proof -
  assume "version_at s"
  then obtain d1 d2 d3 post where
    "s = d1 @ ''.'' @ d2 @ ''.'' @ d3 @ post" "digits d1" "digits d2" "digits d3"
    unfolding version_at_def by blast
  then have "s @ x = d1 @ ''.'' @ d2 @ ''.'' @ d3 @ (post @ x) \<and> digits d1 \<and> digits d2 \<and> digits d3"
    by simp
  then show ?thesis
    unfolding version_at_def by blast
qed

lemma has_version_snoc:
  assumes "\<not> is_digit c"
  shows "has_version (s @ [c]) = has_version s"
proof
  assume "has_version s"
  then obtain pre rest where "s = pre @ rest" "version_at rest"
    unfolding has_version_def by blast
  then have "s @ [c] = pre @ (rest @ [c]) \<and> version_at (rest @ [c])"
    by (simp add: version_at_append)
  then show "has_version (s @ [c])"
    unfolding has_version_def by blast
next
  assume "has_version (s @ [c])"
  then obtain pre rest where h: "s @ [c] = pre @ rest" "version_at rest"
    unfolding has_version_def by blast
  then obtain d1 d2 d3 post where
    r: "rest = d1 @ ''.'' @ d2 @ ''.'' @ d3 @ post" and d: "digits d1" "digits d2" "digits d3"
    unfolding version_at_def by blast
  have "post \<noteq> []"
  proof
    assume "post = []"
    with h r have "s @ [c] = (pre @ d1 @ ''.'' @ d2 @ ''.'') @ d3"
      by simp
    moreover from d have "d3 \<noteq> []"
      by (simp add: digits_def)
    ultimately have "last d3 = c"
      by (metis last_appendR last_snoc)
    moreover from d have "is_digit (last d3)"
      by (simp add: digits_def)
    ultimately show False
      using assms by blast
  qed
  then have "post = butlast post @ [last post]"
    by simp
  with h r have "s @ [c] = (pre @ d1 @ ''.'' @ d2 @ ''.'' @ d3 @ butlast post) @ [last post]"
    by (metis append_assoc)
  then have "s = pre @ (d1 @ ''.'' @ d2 @ ''.'' @ d3 @ butlast post)"
    by simp
  moreover have "version_at (d1 @ ''.'' @ d2 @ ''.'' @ d3 @ butlast post)"
    using d unfolding version_at_def by blast
  ultimately show "has_version s"
    unfolding has_version_def by blast
qed

lemma has_version_append: "\<forall>c\<in>set q. \<not> is_digit c \<Longrightarrow> has_version (s @ q) = has_version s"
proof (induction q rule: rev_induct)
  case Nil
  then show ?case
    by simp
next
  case (snoc c q)
  then have "has_version (s @ q @ [c]) = has_version (s @ q)"
    using has_version_snoc[of c "s @ q"] by simp
  with snoc show ?case
    by simp
qed

lemma has_version_prepend: "\<forall>c\<in>set p. \<not> is_digit c \<Longrightarrow> has_version (p @ s) = has_version s"
  using regex_match_None[of "p @ s"] regex_match_None[of s] by (simp add: regex_match_prepend)

lemma has_version_trim: "has_version (trim t) = has_version t"
proof -
  define u where "u = strip_lead white_space t"
  define y where "y = strip_lead (map rev white_space) (rev u)"
  obtain p where p: "t = p @ u" "\<forall>c\<in>set p. \<exists>w\<in>set white_space. c \<in> set w"
    using strip_lead_decomp[of t white_space] unfolding u_def by blast
  obtain q where q: "rev u = q @ y" "\<forall>c\<in>set q. \<exists>w\<in>set (map rev white_space). c \<in> set w"
    using strip_lead_decomp[of "rev u" "map rev white_space"] unfolding y_def by blast
  from p(2) have np: "\<forall>c\<in>set p. \<not> is_digit c"
    using white_space_no_digit by blast
  from q(2) have nq: "\<forall>c\<in>set (rev q). \<not> is_digit c"
    using white_space_no_digit by auto
  from q(1) have "u = rev y @ rev q"
    by (metis rev_append rev_rev_ident)
  then have "has_version u = has_version (rev y)"
    using nq by (simp add: has_version_append)
  moreover have "has_version t = has_version u"
    using p(1) np by (simp add: has_version_prepend)
  moreover have "trim t = rev y"
    by (simp add: trim_def u_def y_def)
  ultimately show ?thesis
    by simp
qed

lemma has_version_cleaned: "has_version (strip_v (trim t)) = has_version t"
proof -
  have "has_version (strip_v (trim t)) = has_version (trim t)"
    using regex_match_None[of "strip_v (trim t)"] regex_match_None[of "trim t"]
    by (simp add: regex_match_strip_v)
  then show ?thesis
    by (simp add: has_version_trim)
qed

lemma parseSemver_None_iff: "parseSemver (Some t) = None \<longleftrightarrow> \<not> has_version t"
proof (cases "t = []")
  case True
  have "\<not> has_version []"
    using regex_match_None[of "[]"] by simp
  with True show ?thesis
    by (simp add: parseSemver_def)
next
  case False
  then have "parseSemver (Some t) = None \<longleftrightarrow> regex_match (strip_v (trim t)) = None"
    by (simp add: parseSemver_def split: option.splits)
  then show ?thesis
    by (simp add: regex_match_None has_version_cleaned)
qed

lemma parseSemver_Some:
  assumes "parseSemver (Some t) = Some v"
  shows "\<exists>pre d1 d2 d3 post.
           strip_v (trim t) = pre @ d1 @ ''.'' @ d2 @ ''.'' @ d3 @ post
           \<and> digits d1 \<and> digits d2 \<and> digits d3
           \<and> (\<forall>p1 p2. pre = p1 @ p2 \<and> p2 \<noteq> [] \<longrightarrow>
                 \<not> version_at (p2 @ d1 @ ''.'' @ d2 @ ''.'' @ d3 @ post))
           \<and> (post = [] \<or> \<not> is_digit (hd post))
           \<and> v = \<lparr>major = Number d1, minor = Number d2, patch = Number d3\<rparr>
           \<and> (decimal d1 < 2 ^ 53 \<longrightarrow> major v = enat (decimal d1))
           \<and> (decimal d2 < 2 ^ 53 \<longrightarrow> minor v = enat (decimal d2))
           \<and> (decimal d3 < 2 ^ 53 \<longrightarrow> patch v = enat (decimal d3))"
proof -
  from assms obtain d1 d2 d3 where
    m: "regex_match (strip_v (trim t)) = Some (d1, d2, d3)"
    and v: "v = \<lparr>major = Number d1, minor = Number d2, patch = Number d3\<rparr>"
    by (auto simp: parseSemver_def split: if_splits option.splits)
  from v have "decimal d1 < 2 ^ 53 \<longrightarrow> major v = enat (decimal d1)"
    "decimal d2 < 2 ^ 53 \<longrightarrow> minor v = enat (decimal d2)"
    "decimal d3 < 2 ^ 53 \<longrightarrow> patch v = enat (decimal d3)"
    by (simp_all add: Number_small)
  with regex_match_Some[OF m] v show ?thesis
    by blast
qed

lemma parse_examples:
  "parseSemver (Some ''v1.2.3'') = Some \<lparr>major = 1, minor = 2, patch = 3\<rparr>"
  "parseSemver (Some ''1.2.3'') = Some \<lparr>major = 1, minor = 2, patch = 3\<rparr>"
  "parseSemver (Some ''release-2.0.10-beta'') = Some \<lparr>major = 2, minor = 0, patch = 10\<rparr>"
  "parseSemver (Some ''not-a-version'') = None"
  "parseSemver (Some '' V10.20.30-rc.1 '') = Some \<lparr>major = 10, minor = 20, patch = 30\<rparr>"
  "parseSemver (Some ''latest'') = None"
proof -
  have "regex_match (strip_v (trim ''v1.2.3'')) = Some (''1'', ''2'', ''3'')"
    by code_simp
  then show "parseSemver (Some ''v1.2.3'') = Some \<lparr>major = 1, minor = 2, patch = 3\<rparr>"
    by (simp add: parseSemver_match Number_digits)
  have "regex_match (strip_v (trim ''1.2.3'')) = Some (''1'', ''2'', ''3'')"
    by code_simp
  then show "parseSemver (Some ''1.2.3'') = Some \<lparr>major = 1, minor = 2, patch = 3\<rparr>"
    by (simp add: parseSemver_match Number_digits)
  have "regex_match (strip_v (trim ''release-2.0.10-beta'')) = Some (''2'', ''0'', ''10'')"
    by code_simp
  then show "parseSemver (Some ''release-2.0.10-beta'')
      = Some \<lparr>major = 2, minor = 0, patch = 10\<rparr>"
    by (simp add: parseSemver_match Number_digits)
  have "regex_match (strip_v (trim ''not-a-version'')) = None"
    by code_simp
  then show "parseSemver (Some ''not-a-version'') = None"
    by (rule parseSemver_no_match)
  have "regex_match (strip_v (trim '' V10.20.30-rc.1 '')) = Some (''10'', ''20'', ''30'')"
    by code_simp
  then show "parseSemver (Some '' V10.20.30-rc.1 '')
      = Some \<lparr>major = 10, minor = 20, patch = 30\<rparr>"
    by (simp add: parseSemver_match Number_digits)
  have "regex_match (strip_v (trim ''latest'')) = None"
    by code_simp
  then show "parseSemver (Some ''latest'') = None"
    by (rule parseSemver_no_match)
qed

subsection \<open>What parseSemver returns\<close>

text \<open>
  C3, as the script has it. The three numbers are not always the integers that the digits
  denote: \<^verbatim>\<open>Number\<close> gives a double, so 9007199254740993 (which is \<open>2^53 + 1\<close>) is read as
  9007199254740992, and a run of 400 digits is read as \<^verbatim>\<open>Infinity\<close>, which is no integer.
\<close>

theorem parseSemver_first_version_counterexample:
  "parseSemver (Some ''v9007199254740993.0.0'')
     = Some \<lparr>major = 9007199254740992, minor = 0, patch = 0\<rparr>
   \<and> decimal ''9007199254740993'' = 9007199254740993
   \<and> parseSemver (Some long_tag) = Some \<lparr>major = 1, minor = 0, patch = \<infinity>\<rparr>"
proof -
  have "regex_match (strip_v (trim ''v9007199254740993.0.0''))
      = Some (''9007199254740993'', ''0'', ''0'')"
    by code_simp
  then have "parseSemver (Some ''v9007199254740993.0.0'')
      = Some \<lparr>major = 9007199254740992, minor = 0, patch = 0\<rparr>"
    by (simp add: parseSemver_match Number_digits Number_rounds)
  moreover have "decimal ''9007199254740993'' = 9007199254740993"
    by (simp add: decimal_def digit_val_def)
  ultimately show ?thesis
    using parse_long_tag by simp
qed

text \<open>
  C3, amended. \<open>parseSemver\<close> returns nothing for a missing tag and for the empty tag, and
  returns nothing exactly when the tag contains no substring of the form digits, dot,
  digits, dot, digits. Otherwise the tag, with the surrounding white space and one leading
  v or V removed, is some prefix, then three runs of digits separated by dots, then a
  rest: no such substring begins earlier (within the prefix), the third run is not
  followed by a digit, and major, minor and patch of the result are \<^verbatim>\<open>Number\<close> of the three
  runs, which is the integer that a run denotes when that integer is below \<open>2^53\<close>. The
  result is a value, never an exception. The examples of the specification hold.
\<close>

theorem parseSemver_first_version:
  "parseSemver None = None
   \<and> (parseSemver (Some t) = None \<longleftrightarrow> t = [] \<or> \<not> has_version t)
   \<and> (parseSemver (Some t) = Some v \<longrightarrow>
        (\<exists>pre d1 d2 d3 post.
           strip_v (trim t) = pre @ d1 @ ''.'' @ d2 @ ''.'' @ d3 @ post
           \<and> digits d1 \<and> digits d2 \<and> digits d3
           \<and> (\<forall>p1 p2. pre = p1 @ p2 \<and> p2 \<noteq> [] \<longrightarrow>
                 \<not> version_at (p2 @ d1 @ ''.'' @ d2 @ ''.'' @ d3 @ post))
           \<and> (post = [] \<or> \<not> is_digit (hd post))
           \<and> v = \<lparr>major = Number d1, minor = Number d2, patch = Number d3\<rparr>
           \<and> (decimal d1 < 2 ^ 53 \<longrightarrow> major v = enat (decimal d1))
           \<and> (decimal d2 < 2 ^ 53 \<longrightarrow> minor v = enat (decimal d2))
           \<and> (decimal d3 < 2 ^ 53 \<longrightarrow> patch v = enat (decimal d3))))
   \<and> parseSemver (Some ''v1.2.3'') = Some \<lparr>major = 1, minor = 2, patch = 3\<rparr>
   \<and> parseSemver (Some ''1.2.3'') = Some \<lparr>major = 1, minor = 2, patch = 3\<rparr>
   \<and> parseSemver (Some ''release-2.0.10-beta'') = Some \<lparr>major = 2, minor = 0, patch = 10\<rparr>
   \<and> parseSemver (Some ''not-a-version'') = None
   \<and> parseSemver (Some []) = None"
proof (intro conjI impI)
  show "parseSemver None = None"
    by (simp add: parseSemver_def)
  show "parseSemver (Some t) = None \<longleftrightarrow> t = [] \<or> \<not> has_version t"
    using parseSemver_None_iff[of t] parseSemver_None_iff[of "[]"]
    by (auto simp: parseSemver_def)
  show "parseSemver (Some ''v1.2.3'') = Some \<lparr>major = 1, minor = 2, patch = 3\<rparr>"
    by (rule parse_examples)
  show "parseSemver (Some ''1.2.3'') = Some \<lparr>major = 1, minor = 2, patch = 3\<rparr>"
    by (rule parse_examples)
  show "parseSemver (Some ''release-2.0.10-beta'') = Some \<lparr>major = 2, minor = 0, patch = 10\<rparr>"
    by (rule parse_examples)
  show "parseSemver (Some ''not-a-version'') = None"
    by (rule parse_examples)
  show "parseSemver (Some []) = None"
    by (simp add: parseSemver_def)
next
  assume "parseSemver (Some t) = Some v"
  then show "\<exists>pre d1 d2 d3 post.
           strip_v (trim t) = pre @ d1 @ ''.'' @ d2 @ ''.'' @ d3 @ post
           \<and> digits d1 \<and> digits d2 \<and> digits d3
           \<and> (\<forall>p1 p2. pre = p1 @ p2 \<and> p2 \<noteq> [] \<longrightarrow>
                 \<not> version_at (p2 @ d1 @ ''.'' @ d2 @ ''.'' @ d3 @ post))
           \<and> (post = [] \<or> \<not> is_digit (hd post))
           \<and> v = \<lparr>major = Number d1, minor = Number d2, patch = Number d3\<rparr>
           \<and> (decimal d1 < 2 ^ 53 \<longrightarrow> major v = enat (decimal d1))
           \<and> (decimal d2 < 2 ^ 53 \<longrightarrow> minor v = enat (decimal d2))
           \<and> (decimal d3 < 2 ^ 53 \<longrightarrow> patch v = enat (decimal d3))"
    by (rule parseSemver_Some)
qed

theorem parseSemver_first_version_witness:
  "parseSemver (Some '' V10.20.30-rc.1 '') = Some \<lparr>major = 10, minor = 20, patch = 30\<rparr>
   \<and> (\<exists>pre d1 d2 d3 post.
         strip_v (trim '' V10.20.30-rc.1 '') = pre @ d1 @ ''.'' @ d2 @ ''.'' @ d3 @ post
         \<and> digits d1 \<and> digits d2 \<and> digits d3
         \<and> (\<forall>p1 p2. pre = p1 @ p2 \<and> p2 \<noteq> [] \<longrightarrow>
               \<not> version_at (p2 @ d1 @ ''.'' @ d2 @ ''.'' @ d3 @ post))
         \<and> (post = [] \<or> \<not> is_digit (hd post))
         \<and> \<lparr>major = 10, minor = 20, patch = 30\<rparr>
             = \<lparr>major = Number d1, minor = Number d2, patch = Number d3\<rparr>
         \<and> (decimal d1 < 2 ^ 53 \<longrightarrow>
               major \<lparr>major = 10, minor = 20, patch = 30\<rparr> = enat (decimal d1))
         \<and> (decimal d2 < 2 ^ 53 \<longrightarrow>
               minor \<lparr>major = 10, minor = 20, patch = 30\<rparr> = enat (decimal d2))
         \<and> (decimal d3 < 2 ^ 53 \<longrightarrow>
               patch \<lparr>major = 10, minor = 20, patch = 30\<rparr> = enat (decimal d3)))
   \<and> decimal ''10'' < 2 ^ 53 \<and> decimal ''20'' < 2 ^ 53 \<and> decimal ''30'' < 2 ^ 53
   \<and> has_version '' V10.20.30-rc.1 ''
   \<and> parseSemver (Some ''latest'') = None
   \<and> \<not> has_version ''latest''"
proof -
  note T = parseSemver_first_version
  have h1: "parseSemver (Some '' V10.20.30-rc.1 '') = Some \<lparr>major = 10, minor = 20, patch = 30\<rparr>"
    by (rule parse_examples)
  have h2: "parseSemver (Some ''latest'') = None"
    by (rule parse_examples)
  have d: "decimal ''10'' < 2 ^ 53" "decimal ''20'' < 2 ^ 53" "decimal ''30'' < 2 ^ 53"
    by (simp_all add: decimal_def digit_val_def)
  note r1 = mp[OF T[where t="'' V10.20.30-rc.1 ''" and v="\<lparr>major = 10, minor = 20, patch = 30\<rparr>",
      THEN conjunct2, THEN conjunct2, THEN conjunct1] h1]
  from T[where t="'' V10.20.30-rc.1 ''", THEN conjunct2, THEN conjunct1] h1
  have r2: "has_version '' V10.20.30-rc.1 ''"
    by simp
  from T[where t="''latest''", THEN conjunct2, THEN conjunct1] h2
  have r3: "\<not> has_version ''latest''"
    by simp
  show ?thesis
    using h1 r1 d r2 h2 r3 by (intro conjI)
qed

section \<open>Properties of pickWindowsAsset\<close>

lemma starts_with_prefix: "starts_with k s = prefix k s"
  by (induction k s rule: starts_with.induct) auto

lemma test_i_sublist: "test_i kw s = sublist kw (toLowerCase s)"
proof (induction s)
  case Nil
  then show ?case by (cases kw) (simp_all add: toLowerCase_def)
next
  case (Cons c cs)
  have "toLowerCase (c # cs) = toLowerCase_char c # toLowerCase cs"
    by (simp add: toLowerCase_def)
  with Cons show ?case
    by (simp add: starts_with_prefix sublist_Cons_right)
qed

lemma isExe_exe_name: "isExe a = exe_name a"
  by (simp add: isExe_def exe_name_def endsWith_def split: option.splits)

lemma test_name_has: "test_name kw a = name_has kw a"
  by (simp add: test_name_def name_has_def test_i_sublist split: option.splits)

lemma find_filter: "find P (filter Q xs) = find (\<lambda>x. Q x \<and> P x) xs"
  by (induction xs) auto

lemma head_filter: "(case filter Q xs of [] \<Rightarrow> None | e # _ \<Rightarrow> Some e) = find Q xs"
  by (induction xs) auto

lemma find_first_in: "find P xs = Some a \<longleftrightarrow> first_in P xs a"
proof (induction xs)
  case Nil
  then show ?case by (simp add: first_in_def)
next
  case (Cons x xs)
  show ?case
  proof (cases "P x")
    case True
    have "first_in P (x # xs) a \<longleftrightarrow> a = x"
    proof
      assume "first_in P (x # xs) a"
      then obtain pre post where h: "x # xs = pre @ a # post" "P a" "\<forall>y\<in>set pre. \<not> P y"
        by (auto simp: first_in_def)
      show "a = x"
      proof (cases pre)
        case Nil
        with h show ?thesis by simp
      next
        case (Cons p ps)
        with h True show ?thesis by auto
      qed
    next
      assume "a = x"
      with True have "x # xs = [] @ a # xs \<and> P a \<and> (\<forall>y\<in>set []. \<not> P y)" by simp
      then show "first_in P (x # xs) a" unfolding first_in_def by blast
    qed
    with True show ?thesis by auto
  next
    case False
    have "first_in P (x # xs) a \<longleftrightarrow> first_in P xs a"
    proof
      assume "first_in P (x # xs) a"
      then obtain pre post where h: "x # xs = pre @ a # post" "P a" "\<forall>y\<in>set pre. \<not> P y"
        by (auto simp: first_in_def)
      show "first_in P xs a"
      proof (cases pre)
        case Nil
        with h False show ?thesis by simp
      next
        case (Cons p ps)
        with h have "xs = ps @ a # post \<and> P a \<and> (\<forall>y\<in>set ps. \<not> P y)" by simp
        then show ?thesis unfolding first_in_def by blast
      qed
    next
      assume "first_in P xs a"
      then obtain pre post where h: "xs = pre @ a # post" "P a" "\<forall>y\<in>set pre. \<not> P y"
        by (auto simp: first_in_def)
      with False have "x # xs = (x # pre) @ a # post \<and> P a \<and> (\<forall>y\<in>set (x # pre). \<not> P y)" by simp
      then show "first_in P (x # xs) a" unfolding first_in_def by blast
    qed
    with False Cons show ?thesis by simp
  qed
qed

lemma find_Some_ex: "\<exists>x\<in>set xs. P x \<Longrightarrow> \<exists>a. find P xs = Some a"
  by (cases "find P xs") (auto simp: find_None_iff)

lemma tier1_tier2: "tier1 a \<Longrightarrow> tier2 a"
  by (simp add: tier1_def tier2_def)

lemma tier2_exe: "tier2 a \<Longrightarrow> exe_name a"
  by (simp add: tier2_def)

lemma find_None_all: "\<forall>x\<in>set xs. \<not> P x \<Longrightarrow> find P xs = None"
  by (induction xs) auto

lemma pickWindowsAsset_tiers:
  "pickWindowsAsset as =
     (case find tier1 as of Some a \<Rightarrow> Some a
      | None \<Rightarrow> (case find tier2 as of Some a \<Rightarrow> Some a | None \<Rightarrow> find exe_name as))"
proof -
  have t1: "(\<lambda>x. exe_name x \<and> looks_like_server x) = tier1"
    by (auto simp: fun_eq_iff looks_like_server_def tier1_def isExe_exe_name test_name_has)
  have t2: "(\<lambda>x. exe_name x \<and> test_name ''opendrop'' x) = tier2"
    by (auto simp: fun_eq_iff tier2_def isExe_exe_name test_name_has)
  have t3: "isExe = exe_name"
    by (auto simp: fun_eq_iff isExe_exe_name)
  show ?thesis
  proof (cases "filter isExe as = []")
    case True
    then have n: "\<forall>a\<in>set as. \<not> exe_name a"
      by (auto simp: filter_empty_conv t3)
    then have "\<forall>a\<in>set as. \<not> tier2 a"
      using tier2_exe by blast
    moreover from this have "\<forall>a\<in>set as. \<not> tier1 a"
      using tier1_tier2 by blast
    ultimately have "find tier1 as = None" "find tier2 as = None" "find exe_name as = None"
      using n by (simp_all add: find_None_all)
    with True show ?thesis by (simp add: pickWindowsAsset_def)
  next
    case False
    then have "as \<noteq> []" by auto
    with False show ?thesis
      using head_filter[of isExe as]
      by (simp add: pickWindowsAsset_def Let_def find_filter t1 t2 t3 split: option.splits)
  qed
qed

lemma first_in_mem: "first_in P xs a \<Longrightarrow> a \<in> set xs \<and> P a"
  by (auto simp: first_in_def)

lemma pickWindowsAsset_Some:
  assumes "pickWindowsAsset as = Some b"
  shows "b \<in> set as \<and> exe_name b"
proof -
  from assms
  have "find tier1 as = Some b \<or> find tier2 as = Some b \<or> find exe_name as = Some b"
    by (simp add: pickWindowsAsset_tiers split: option.splits)
  then have "first_in tier1 as b \<or> first_in tier2 as b \<or> first_in exe_name as b"
    by (simp add: find_first_in)
  then show ?thesis
    using first_in_mem[of tier1 as b] first_in_mem[of tier2 as b] first_in_mem[of exe_name as b]
      tier1_tier2[of b] tier2_exe[of b]
    by blast
qed

text \<open>
  C5. \<open>pickWindowsAsset\<close> returns nothing when no asset has a name that ends with
  \<^verbatim>\<open>.exe\<close>, letter case ignored. Otherwise it returns the first asset, in the order of
  the input, of the first tier that is not empty: the executables whose name contains
  \<^verbatim>\<open>opendrop\<close> and one of \<^verbatim>\<open>server\<close>, \<^verbatim>\<open>setup\<close>, \<^verbatim>\<open>installer\<close>, \<^verbatim>\<open>windows\<close>; the
  executables whose name contains \<^verbatim>\<open>opendrop\<close>; the executables. Every asset returned
  is an element of the input whose name ends with \<^verbatim>\<open>.exe\<close>.
\<close>

theorem pickWindowsAsset_tiered:
  "((\<forall>a\<in>set as. \<not> exe_name a) \<longrightarrow> pickWindowsAsset as = None)
   \<and> ((\<exists>a\<in>set as. tier1 a) \<longrightarrow> (\<exists>a. pickWindowsAsset as = Some a \<and> first_in tier1 as a))
   \<and> (\<not> (\<exists>a\<in>set as. tier1 a) \<and> (\<exists>a\<in>set as. tier2 a)
        \<longrightarrow> (\<exists>a. pickWindowsAsset as = Some a \<and> first_in tier2 as a))
   \<and> (\<not> (\<exists>a\<in>set as. tier2 a) \<and> (\<exists>a\<in>set as. exe_name a)
        \<longrightarrow> (\<exists>a. pickWindowsAsset as = Some a \<and> first_in exe_name as a))
   \<and> (pickWindowsAsset as = Some b \<longrightarrow> b \<in> set as \<and> exe_name b)"
proof (intro conjI impI)
  assume a: "\<forall>a\<in>set as. \<not> exe_name a"
  then have "\<forall>a\<in>set as. \<not> tier2 a"
    using tier2_exe by blast
  moreover from this have "\<forall>a\<in>set as. \<not> tier1 a"
    using tier1_tier2 by blast
  ultimately have "find tier1 as = None" "find tier2 as = None" "find exe_name as = None"
    using a by (simp_all add: find_None_all)
  then show "pickWindowsAsset as = None"
    by (simp add: pickWindowsAsset_tiers)
next
  assume "\<exists>a\<in>set as. tier1 a"
  then obtain a where f: "find tier1 as = Some a"
    using find_Some_ex[where P=tier1 and xs=as] by blast
  then have "pickWindowsAsset as = Some a"
    by (simp add: pickWindowsAsset_tiers)
  moreover from f have "first_in tier1 as a"
    by (simp add: find_first_in)
  ultimately show "\<exists>a. pickWindowsAsset as = Some a \<and> first_in tier1 as a"
    by blast
next
  assume h: "\<not> (\<exists>a\<in>set as. tier1 a) \<and> (\<exists>a\<in>set as. tier2 a)"
  then have n: "find tier1 as = None"
    by (simp add: find_None_all)
  from h obtain a where f: "find tier2 as = Some a"
    using find_Some_ex[where P=tier2 and xs=as] by blast
  with n have "pickWindowsAsset as = Some a"
    by (simp add: pickWindowsAsset_tiers)
  moreover from f have "first_in tier2 as a"
    by (simp add: find_first_in)
  ultimately show "\<exists>a. pickWindowsAsset as = Some a \<and> first_in tier2 as a"
    by blast
next
  assume h: "\<not> (\<exists>a\<in>set as. tier2 a) \<and> (\<exists>a\<in>set as. exe_name a)"
  then have "\<forall>a\<in>set as. \<not> tier2 a"
    by blast
  moreover from this have "\<forall>a\<in>set as. \<not> tier1 a"
    using tier1_tier2 by blast
  ultimately have n: "find tier1 as = None" "find tier2 as = None"
    by (simp_all add: find_None_all)
  from h obtain a where f: "find exe_name as = Some a"
    using find_Some_ex[where P=exe_name and xs=as] by blast
  with n have "pickWindowsAsset as = Some a"
    by (simp add: pickWindowsAsset_tiers)
  moreover from f have "first_in exe_name as a"
    by (simp add: find_first_in)
  ultimately show "\<exists>a. pickWindowsAsset as = Some a \<and> first_in exe_name as a"
    by blast
qed (simp_all add: pickWindowsAsset_Some)

lemma tier1_code: "tier1 a = (isExe a \<and> looks_like_server a)"
  by (simp add: tier1_def looks_like_server_def isExe_exe_name test_name_has)

lemma tier2_code: "tier2 a = (isExe a \<and> test_name ''opendrop'' a)"
  by (simp add: tier2_def isExe_exe_name test_name_has)

theorem pickWindowsAsset_tiered_witness:
  "\<not> exe_name (download ''readme.txt'')
   \<and> pickWindowsAsset [download ''readme.txt''] = None
   \<and> tier1 (download ''opendrop-setup.exe'')
   \<and> (\<exists>a. pickWindowsAsset
              [download ''readme.txt'', download ''opendrop-setup.exe'', download ''tool.exe''] = Some a
          \<and> first_in tier1
              [download ''readme.txt'', download ''opendrop-setup.exe'', download ''tool.exe''] a)
   \<and> \<not> tier1 (download ''tool.exe'') \<and> \<not> tier1 (download ''OpenDrop.EXE'')
   \<and> tier2 (download ''OpenDrop.EXE'')
   \<and> (\<exists>a. pickWindowsAsset [download ''tool.exe'', download ''OpenDrop.EXE''] = Some a
          \<and> first_in tier2 [download ''tool.exe'', download ''OpenDrop.EXE''] a)
   \<and> \<not> tier2 (download ''foo.exe'')
   \<and> exe_name (download ''foo.exe'')
   \<and> (\<exists>a. pickWindowsAsset [download ''foo.exe''] = Some a
          \<and> first_in exe_name [download ''foo.exe''] a)
   \<and> pickWindowsAsset [download ''foo.exe''] = Some (download ''foo.exe'')
   \<and> download ''foo.exe'' \<in> set [download ''foo.exe'']"
proof -
  note T = pickWindowsAsset_tiered
  have e0: "\<not> exe_name (download ''readme.txt'')"
    unfolding isExe_exe_name[symmetric] by code_simp
  have t1: "tier1 (download ''opendrop-setup.exe'')"
    unfolding tier1_code by code_simp
  have n1: "\<not> tier1 (download ''tool.exe'')" "\<not> tier1 (download ''OpenDrop.EXE'')"
    unfolding tier1_code by code_simp+
  have t2: "tier2 (download ''OpenDrop.EXE'')"
    unfolding tier2_code by code_simp
  have n2: "\<not> tier2 (download ''foo.exe'')"
    unfolding tier2_code by code_simp
  have e3: "exe_name (download ''foo.exe'')"
    unfolding isExe_exe_name[symmetric] by code_simp
  have p3: "pickWindowsAsset [download ''foo.exe''] = Some (download ''foo.exe'')"
    by code_simp
  from e0 have h0: "\<forall>a\<in>set [download ''readme.txt'']. \<not> exe_name a"
    by simp
  from t1 have h1: "\<exists>a\<in>set [download ''readme.txt'', download ''opendrop-setup.exe'',
      download ''tool.exe'']. tier1 a"
    by simp
  from n1 t2 have h2: "\<not> (\<exists>a\<in>set [download ''tool.exe'', download ''OpenDrop.EXE'']. tier1 a)
      \<and> (\<exists>a\<in>set [download ''tool.exe'', download ''OpenDrop.EXE'']. tier2 a)"
    by simp
  from n2 e3 have h3: "\<not> (\<exists>a\<in>set [download ''foo.exe'']. tier2 a)
      \<and> (\<exists>a\<in>set [download ''foo.exe'']. exe_name a)"
    by simp
  note r0 = mp[OF T[where as="[download ''readme.txt'']", THEN conjunct1] h0]
  note r1 = mp[OF T[where as="[download ''readme.txt'', download ''opendrop-setup.exe'',
      download ''tool.exe'']", THEN conjunct2, THEN conjunct1] h1]
  note r2 = mp[OF T[where as="[download ''tool.exe'', download ''OpenDrop.EXE'']",
      THEN conjunct2, THEN conjunct2, THEN conjunct1] h2]
  note r3 = mp[OF T[where as="[download ''foo.exe'']",
      THEN conjunct2, THEN conjunct2, THEN conjunct2, THEN conjunct1] h3]
  note r4 = mp[OF T[where as="[download ''foo.exe'']" and b="download ''foo.exe''",
      THEN conjunct2, THEN conjunct2, THEN conjunct2, THEN conjunct2] p3, THEN conjunct1]
  show ?thesis
    using e0 r0 t1 r1 n1 t2 r2 n2 e3 r3 p3 r4 by (intro conjI)
qed

lemma pickWindowsAsset_examples:
  "pickWindowsAsset [download ''readme.txt'', download ''opendrop-setup.exe'', download ''tool.exe'']
     = Some (download ''opendrop-setup.exe'')
   \<and> pickWindowsAsset [download ''foo.exe''] = Some (download ''foo.exe'')
   \<and> pickWindowsAsset [download ''readme.txt''] = None"
  by code_simp

end
